theory Spec2Isabelle
  imports Complex_Main "HOL-Library.AList" "HOL-Library.FSet" "HOL-Library.Word"
    "HOL-Library.Sublist"
begin

section \<open>Numbers, strings and runtime errors\<close>

text \<open>
  The front end is TypeScript. A JavaScript \<^verbatim>\<open>number\<close> is modelled by a \<^typ>\<open>real\<close>:
  rounding, NaN and the infinities of IEEE doubles are outside the model, so every
  statement below is about the algorithms in exact arithmetic. Array indices and lengths
  are \<^typ>\<open>nat\<close>. A read of a property of \<^verbatim>\<open>undefined\<close> throws a TypeError in JavaScript;
  it is the \<open>Inl\<close> branch of a sum here.
\<close>

datatype js_error = TypeError

type_synonym point = "real \<times> real"

section \<open>Route geometry (vehicle-layer.ts)\<close>

definition DEG2RAD :: real where
  "DEG2RAD = pi / 180"

definition M_PER_DEG_LAT :: real where
  "M_PER_DEG_LAT = 111320"

record RouteGeometry =
  points :: "point list"
  cumDist :: "real list"
  totalDist :: real

text \<open>
  The body of the \<^verbatim>\<open>for\<close> loop of \<^verbatim>\<open>buildRouteGeometry\<close>: \<open>prev\<close> is \<^verbatim>\<open>points[i - 1]\<close>,
  the list holds \<^verbatim>\<open>points[i..]\<close>, \<open>acc\<close> is \<^verbatim>\<open>cumDist\<close> so far and \<open>tot\<close> the running sum.
\<close>

fun cumLoop :: "real \<Rightarrow> point \<Rightarrow> point list \<Rightarrow> real list \<Rightarrow> real \<Rightarrow> real list \<times> real" where
  "cumLoop cosLat prev [] acc tot = (acc, tot)"
| "cumLoop cosLat prev (p # ps) acc tot =
     (let dlat = (fst p - fst prev) * M_PER_DEG_LAT;
          dlon = (snd p - snd prev) * M_PER_DEG_LAT * cosLat;
          tot' = tot + sqrt (dlat * dlat + dlon * dlon)
      in cumLoop cosLat p ps (acc @ [tot']) tot')"

text \<open>
  \<^verbatim>\<open>buildRouteGeometry(coords)\<close>. On an empty array \<^verbatim>\<open>points[0][0]\<close> reads a property of
  \<^verbatim>\<open>undefined\<close> and throws. \<^verbatim>\<open>Math.cos\<close> is the exact cosine here: 0 at a pole, where the
  runtime's is about \<open>6.1e-17\<close>.
\<close>

definition buildRouteGeometry :: "point list \<Rightarrow> js_error + RouteGeometry" where
  "buildRouteGeometry coords =
     (case coords of
        [] \<Rightarrow> Inl TypeError
      | p0 # rest \<Rightarrow>
          (let cosLat = cos (fst p0 * DEG2RAD);
               (cd, tot) = cumLoop cosLat p0 rest [0] 0
           in Inr \<lparr> points = coords, cumDist = cd, totalDist = tot \<rparr>))"

text \<open>
  The binary search of \<^verbatim>\<open>pointAtProgress\<close>:
  \<^verbatim>\<open>while (lo < hi - 1) { mid = (lo + hi) >> 1; if (cumDist[mid] <= targetDist) lo = mid; else hi = mid; }\<close>
  It is entered with \<open>0 \<le> lo \<le> hi < length cd\<close>, where \<^verbatim>\<open>>> 1\<close> halves and every read is in range.
\<close>

function searchSeg :: "real list \<Rightarrow> real \<Rightarrow> nat \<Rightarrow> nat \<Rightarrow> nat \<times> nat" where
  "searchSeg cd targetDist lo hi =
     (if lo < hi - 1 then
        (let mid = (lo + hi) div 2
         in if cd ! mid \<le> targetDist then searchSeg cd targetDist mid hi
            else searchSeg cd targetDist lo mid)
      else (lo, hi))"
  by pat_completeness auto
termination
  by (relation "measure (\<lambda>(cd, targetDist, lo, hi). hi - lo)") auto

declare searchSeg.simps [simp del]

text \<open>
  \<^verbatim>\<open>pointAtProgress(geom, progress)\<close>. With an empty \<^verbatim>\<open>cumDist\<close> the code starts at \<^verbatim>\<open>hi = -1\<close>,
  skips the loop and reads \<^verbatim>\<open>geom.points[-1][0]\<close>, which throws; so does \<^verbatim>\<open>geom.points[hi][0]\<close>
  when \<^verbatim>\<open>points\<close> is shorter than \<^verbatim>\<open>cumDist\<close> demands.
\<close>

definition pointAtProgress :: "RouteGeometry \<Rightarrow> real \<Rightarrow> js_error + point" where
  "pointAtProgress geom progress =
     (let p = max 0 (min 1 progress);
          targetDist = p * totalDist geom
      in if cumDist geom = [] then Inl TypeError
         else
           (let (lo, hi) = searchSeg (cumDist geom) targetDist 0 (length (cumDist geom) - 1)
            in if length (points geom) \<le> hi then Inl TypeError
               else
                 (let segStart = cumDist geom ! lo;
                      segEnd = cumDist geom ! hi;
                      segLen = segEnd - segStart;
                      t = (if segLen > 0 then (targetDist - segStart) / segLen else 0)
                  in Inr (fst (points geom ! lo) + (fst (points geom ! hi) - fst (points geom ! lo)) * t,
                          snd (points geom ! lo) + (snd (points geom ! hi) - snd (points geom ! lo)) * t))))"

subsection \<open>Reference definitions for the geometry\<close>

text \<open>
  The length the loop adds for the segment from \<open>a\<close> to \<open>b\<close>, the list of running sums it
  pushes, and the length of a polyline as the sum of its segments' lengths. The loop is
  compared with them below.
\<close>

definition segDist :: "real \<Rightarrow> point \<Rightarrow> point \<Rightarrow> real" where
  "segDist cosLat a b =
     sqrt (((fst b - fst a) * M_PER_DEG_LAT) * ((fst b - fst a) * M_PER_DEG_LAT)
         + ((snd b - snd a) * M_PER_DEG_LAT * cosLat) * ((snd b - snd a) * M_PER_DEG_LAT * cosLat))"

fun runningDist :: "real \<Rightarrow> point \<Rightarrow> point list \<Rightarrow> real \<Rightarrow> real list" where
  "runningDist c prev [] tot = []"
| "runningDist c prev (p # ps) tot = (tot + segDist c prev p) # runningDist c p ps (tot + segDist c prev p)"

fun polylineLength :: "real \<Rightarrow> point list \<Rightarrow> real" where
  "polylineLength c (a # b # ps) = segDist c a b + polylineLength c (b # ps)"
| "polylineLength c _ = 0"

section \<open>Bearing and travel direction (vehicle-layer.ts)\<close>

text \<open>
  The \<^verbatim>\<open>%\<close> of JavaScript on numbers: \<open>a - b * q\<close> with \<open>q\<close> the quotient \<open>a / b\<close> truncated towards
  zero, so the result has the sign of \<open>a\<close>. The code only divides by 360.
\<close>

definition js_rem :: "real \<Rightarrow> real \<Rightarrow> real" where
  "js_rem a b = a - b * of_int (if 0 \<le> a / b then \<lfloor>a / b\<rfloor> else \<lceil>a / b\<rceil>)"

text \<open>The runtime's \<^verbatim>\<open>Math.atan2(y, x)\<close>, the angle of the point \<open>(x, y)\<close> in \<open>(-\<pi>, \<pi>]\<close>; no signed zero.\<close>

definition Math_atan2 :: "real \<Rightarrow> real \<Rightarrow> real" where
  "Math_atan2 y x =
     (if 0 < x then arctan (y / x)
      else if x < 0 then (if 0 \<le> y then arctan (y / x) + pi else arctan (y / x) - pi)
      else if 0 < y then pi / 2
      else if y < 0 then - (pi / 2)
      else 0)"

definition bearingAtProgress :: "RouteGeometry \<Rightarrow> real \<Rightarrow> js_error + real" where
  "bearingAtProgress geom progress =
     (let eps = 1 / 1000
      in case pointAtProgress geom (max 0 (progress - eps)) of
           Inl e \<Rightarrow> Inl e
         | Inr p1 \<Rightarrow>
             (case pointAtProgress geom (min 1 (progress + eps)) of
                Inl e \<Rightarrow> Inl e
              | Inr p2 \<Rightarrow>
                  (let cosLat = cos (fst p1 * DEG2RAD);
                       dx = (snd p2 - snd p1) * cosLat;
                       dy = fst p2 - fst p1
                   in Inr (js_rem (Math_atan2 dx dy * 180 / pi + 360) 360))))"

definition absAngleDiffDeg :: "real \<Rightarrow> real \<Rightarrow> real" where
  "absAngleDiffDeg a b =
     (let diff = js_rem \<bar>a - b\<bar> 360
      in if diff > 180 then 360 - diff else diff)"

definition inferTravelDir :: "RouteGeometry \<Rightarrow> real \<Rightarrow> real \<Rightarrow> real \<Rightarrow> js_error + int" where
  "inferTravelDir geom prevProgress targetProgress targetCourse =
     (if \<bar>targetProgress - prevProgress\<bar> > 1 / 10000
      then Inr (if targetProgress \<ge> prevProgress then 1 else - 1)
      else
        (case bearingAtProgress geom targetProgress of
           Inl e \<Rightarrow> Inl e
         | Inr routeBearing \<Rightarrow>
             Inr (if absAngleDiffDeg targetCourse routeBearing > 90 then - 1 else 1)))"

section \<open>Vehicle frames (ws-client.ts) and the state store (state.ts)\<close>

text \<open>
  \<^verbatim>\<open>VehicleData\<close> as the interface declares it; \<^verbatim>\<open>id\<close> is \<open>id_v\<close> here, and \<^verbatim>\<open>T | null\<close> is an
  option.
\<close>

record VehicleData =
  id_v :: string
  board_num :: string
  route :: string
  route_id :: "int option"
  lat :: real
  lon :: real
  speed :: real
  course :: real
  prev_stop :: "(int \<times> string) option"
  next_stops :: "(int \<times> string \<times> real option) list"
  progress :: "real option"
  timestamp :: "string option"
  signal_lost :: bool

datatype frame_type = Snapshot | Update

record WsMessage =
  msg_type :: frame_type
  msg_vehicles :: "VehicleData list"

text \<open>
  \<^verbatim>\<open>RouteInfo\<close> (api-client.ts), with the \<^verbatim>\<open>stop_ids\<close> and \<^verbatim>\<open>geometry\<close> the server sends and
  the layers read.
\<close>

record RouteInfo =
  route_key :: int
  number :: string
  name :: string
  color :: string
  stop_ids :: "int list"
  geometry :: "point list option"

record StopInfo =
  stop_key :: int
  stop_name :: string
  stop_lat :: real
  stop_lon :: real

text \<open>
  \<^verbatim>\<open>AppState\<close>. A JavaScript \<^verbatim>\<open>Map\<close> keeps its keys in insertion order and \<^verbatim>\<open>set\<close> on a
  present key replaces the value in place: an association list under \<^const>\<open>AList.update\<close>.
  \<^verbatim>\<open>enabledRoutes\<close> is a finite set; only membership and size are read. The store's
  listeners are not modelled; \<open>notifications\<close> counts the calls of \<^verbatim>\<open>notify()\<close>.
\<close>

record AppState =
  vehicles :: "(string \<times> VehicleData) list"
  routes :: "RouteInfo list"
  stops :: "StopInfo list"
  enabledRoutes :: "string fset"
  selectedStop :: "int option"
  connected :: bool
  notifications :: nat

definition initialState :: AppState where
  "initialState = \<lparr> vehicles = [], routes = [], stops = [], enabledRoutes = {||},
     selectedStop = None, connected = False, notifications = 0 \<rparr>"

definition notify :: "AppState \<Rightarrow> AppState" where
  "notify st = st\<lparr> notifications := Suc (notifications st) \<rparr>"

definition setConnected :: "bool \<Rightarrow> AppState \<Rightarrow> AppState" where
  "setConnected c st = notify (st\<lparr> connected := c \<rparr>)"

text \<open>\<^verbatim>\<open>for (const v of vehicles) this.state.vehicles.set(v.id, v); this.notify();\<close>\<close>

definition updateVehicles :: "VehicleData list \<Rightarrow> AppState \<Rightarrow> AppState" where
  "updateVehicles vs st =
     notify (st\<lparr> vehicles := foldl (\<lambda>m v. AList.update (id_v v) v m) (vehicles st) vs \<rparr>)"

definition setRoutes :: "RouteInfo list \<Rightarrow> AppState \<Rightarrow> AppState" where
  "setRoutes rs st = notify (st\<lparr> routes := rs, enabledRoutes := fset_of_list (map number rs) \<rparr>)"

definition toggleRoute :: "string \<Rightarrow> AppState \<Rightarrow> AppState" where
  "toggleRoute routeNum st =
     notify (if routeNum |\<in>| enabledRoutes st
             then st\<lparr> enabledRoutes := enabledRoutes st |-| {|routeNum|} \<rparr>
             else st\<lparr> enabledRoutes := finsert routeNum (enabledRoutes st) \<rparr>)"

definition enableAllRoutes :: "AppState \<Rightarrow> AppState" where
  "enableAllRoutes st = notify (st\<lparr> enabledRoutes := fset_of_list (map number (routes st)) \<rparr>)"

definition disableAllRoutes :: "AppState \<Rightarrow> AppState" where
  "disableAllRoutes st = notify (st\<lparr> enabledRoutes := {||} \<rparr>)"

text \<open>
  \<^verbatim>\<open>getVisibleVehicles()\<close>: the loop over \<^verbatim>\<open>this.state.vehicles.values()\<close> that pushes onto
  \<^verbatim>\<open>result\<close>.
\<close>

definition getVisibleVehicles :: "AppState \<Rightarrow> VehicleData list" where
  "getVisibleVehicles st =
     (let hasFilter = (0 < fcard (enabledRoutes st))
      in foldl (\<lambda>result v. if \<not> hasFilter \<or> route v |\<in>| enabledRoutes st then result @ [v] else result)
           [] (map snd (vehicles st)))"

section \<open>Route colours (vehicle-layer.ts)\<close>

text \<open>
  \<^verbatim>\<open>routeColor\<close> reads its argument through \<^verbatim>\<open>parseInt\<close> and \<^verbatim>\<open>charCodeAt\<close>, so the argument is
  a JavaScript string as the list of its UTF-16 code units.
\<close>

type_synonym utf16 = "nat list"

definition COLORS :: "string list" where
  "COLORS =
    [''#e6194b'', ''#3cb44b'', ''#4363d8'', ''#f58231'', ''#911eb4'',
     ''#42d4f4'', ''#f032e6'', ''#bfef45'', ''#fabed4'', ''#469990'',
     ''#dcbeff'', ''#9A6324'', ''#800000'', ''#aaffc3'', ''#808000'',
     ''#000075'', ''#a9a9a9'', ''#ffe119'', ''#ffd8b1'', ''#00CED1'',
     ''#ff6eb4'', ''#ff4500'', ''#1abc9c'', ''#8b0000'']"

text \<open>
  The runtime's \<^verbatim>\<open>parseInt(s, 10)\<close> (ECMAScript 19.2.5): leading white space and line
  terminators are skipped, one sign is read, then the longest run of decimal digits; no
  digit gives NaN, here \<open>None\<close>. The value is exact in the model; the runtime's is a
  double, rounded past \<open>2^53\<close> and \<^verbatim>\<open>Infinity\<close> past \<open>1.8e308\<close>.
\<close>

definition isStrWhiteSpace :: "nat \<Rightarrow> bool" where
  "isStrWhiteSpace c \<longleftrightarrow>
     c \<in> set [9, 10, 11, 12, 13, 32, 160, 5760, 8232, 8233, 8239, 8287, 12288, 65279]
     \<or> (8192 \<le> c \<and> c \<le> 8202)"

definition isDigit :: "nat \<Rightarrow> bool" where
  "isDigit c \<longleftrightarrow> 48 \<le> c \<and> c \<le> 57"

definition digitsValue :: "nat list \<Rightarrow> int" where
  "digitsValue ds = foldl (\<lambda>acc c. acc * 10 + (int c - 48)) 0 ds"

definition parseInt10 :: "utf16 \<Rightarrow> int option" where
  "parseInt10 s =
     (let S = dropWhile isStrWhiteSpace s;
          sign = (if S \<noteq> [] \<and> hd S = 45 then - 1 else 1);
          S' = (if S \<noteq> [] \<and> (hd S = 43 \<or> hd S = 45) then tl S else S);
          Z = takeWhile isDigit S'
      in if Z = [] then None else Some (sign * digitsValue Z))"

text \<open>
  The \<^verbatim>\<open>%\<close> of JavaScript on integers: the quotient is truncated, so the result has the sign
  of the dividend.
\<close>

definition js_rem_int :: "int \<Rightarrow> int \<Rightarrow> int" where
  "js_rem_int a b = sgn a * (\<bar>a\<bar> mod \<bar>b\<bar>)"

text \<open>\<^verbatim>\<open>hash << 5\<close>: the operand is taken modulo \<open>2^32\<close>, shifted, and read as a signed 32-bit value.\<close>

definition shl5 :: "int \<Rightarrow> int" where
  "shl5 h = sint (push_bit 5 (word_of_int h :: 32 word))"

text \<open>\<^verbatim>\<open>for (i = 0; i < routeNum.length; i++) hash = routeNum.charCodeAt(i) + ((hash << 5) - hash);\<close>\<close>

definition hashLoop :: "utf16 \<Rightarrow> int" where
  "hashLoop s = foldl (\<lambda>hash c. int c + (shl5 hash - hash)) 0 s"

text \<open>
  \<^verbatim>\<open>COLORS[i]\<close>: an index that is not in \<open>0 .. COLORS.length - 1\<close> reads \<^verbatim>\<open>undefined\<close>, here
  \<open>None\<close>.
\<close>

definition colorAt :: "int \<Rightarrow> string option" where
  "colorAt i = (if 0 \<le> i \<and> i < int (length COLORS) then Some (COLORS ! nat i) else None)"

definition routeColor :: "utf16 \<Rightarrow> string option" where
  "routeColor routeNum =
     (case parseInt10 routeNum of
        Some num \<Rightarrow> colorAt (js_rem_int num (int (length COLORS)))
      | None \<Rightarrow> colorAt (js_rem_int \<bar>hashLoop routeNum\<bar> (int (length COLORS))))"

section \<open>Sample data\<close>

text \<open>A vehicle frame with the given id and route number, for the concrete instances below.\<close>

definition sampleVehicle :: "string \<Rightarrow> string \<Rightarrow> VehicleData" where
  "sampleVehicle i r =
     \<lparr> id_v = i, board_num = ''101'', route = r, route_id = None, lat = 0, lon = 0,
       speed = 0, course = 0, prev_stop = None, next_stops = [], progress = None,
       timestamp = None, signal_lost = False \<rparr>"

section \<open>The frame handler (main.ts)\<close>

text \<open>
  \<^verbatim>\<open>main()\<close> keeps one flag, \<^verbatim>\<open>hasFreshVehicleUpdate\<close>, beside the store. \<^verbatim>\<open>Date.parse\<close> is the
  runtime's: it is the parameter \<open>parse\<close>, with \<open>None\<close> for NaN. \<^verbatim>\<open>Date.now()\<close> is the
  parameter \<open>now\<close>, in milliseconds, read once per frame.
\<close>

record MainState =
  hasFreshVehicleUpdate :: bool
  store :: AppState

definition mainInit :: MainState where
  "mainInit = \<lparr> hasFreshVehicleUpdate = False, store = initialState \<rparr>"

definition SNAPSHOT_MAX_AGE_MS :: real where
  "SNAPSHOT_MAX_AGE_MS = 20000"

text \<open>\<^verbatim>\<open>isFreshSnapshot(ts)\<close>; \<^verbatim>\<open>!ts\<close> holds of \<^verbatim>\<open>null\<close> and of the empty string.\<close>

definition isFreshSnapshot :: "(string \<Rightarrow> real option) \<Rightarrow> real \<Rightarrow> string option \<Rightarrow> bool" where
  "isFreshSnapshot parse now ts =
     (case ts of
        None \<Rightarrow> False
      | Some s \<Rightarrow>
          if s = [] then False
          else (case parse s of
                  None \<Rightarrow> False
                | Some parsed \<Rightarrow> now - parsed \<le> SNAPSHOT_MAX_AGE_MS))"

text \<open>\<^verbatim>\<open>wsClient.onStatusChange\<close>, without the status dot and text of the page.\<close>

definition onStatusChange :: "bool \<Rightarrow> MainState \<Rightarrow> MainState" where
  "onStatusChange c s =
     (let s1 = s\<lparr> store := setConnected c (store s) \<rparr>
      in if \<not> c
         then s1\<lparr> hasFreshVehicleUpdate := False, store := updateVehicles [] (store s1) \<rparr>
         else s1)"

text \<open>The listener given to \<^verbatim>\<open>wsClient.subscribe\<close>.\<close>

definition onFrame :: "(string \<Rightarrow> real option) \<Rightarrow> real \<Rightarrow> WsMessage \<Rightarrow> MainState \<Rightarrow> MainState" where
  "onFrame parse now msg s =
     (if msg_type msg = Update
      then s\<lparr> hasFreshVehicleUpdate := True, store := updateVehicles (msg_vehicles msg) (store s) \<rparr>
      else if hasFreshVehicleUpdate s
      then s\<lparr> store := updateVehicles (msg_vehicles msg) (store s) \<rparr>
      else
        (let hasVehicles = (length (msg_vehicles msg) > 0);
             snapshotIsFresh = (hasVehicles \<and> list_all (\<lambda>v. isFreshSnapshot parse now (timestamp v)) (msg_vehicles msg))
         in if snapshotIsFresh
            then s\<lparr> store := updateVehicles (msg_vehicles msg) (store s) \<rparr>
            else s))"

text \<open>What reaches the two handlers: a frame, with the time it arrives at, or a status change.\<close>

datatype main_event = Frame real WsMessage | Status bool

fun mainStep :: "(string \<Rightarrow> real option) \<Rightarrow> MainState \<Rightarrow> main_event \<Rightarrow> MainState" where
  "mainStep parse s (Frame now msg) = onFrame parse now msg s"
| "mainStep parse s (Status c) = onStatusChange c s"

definition mainRun :: "(string \<Rightarrow> real option) \<Rightarrow> main_event list \<Rightarrow> MainState \<Rightarrow> MainState" where
  "mainRun parse evs s = foldl (mainStep parse) s evs"

subsection \<open>Reference definitions for the frame handler\<close>

text \<open>
  A vehicle's timestamp parses as a date and is at most 20000 ms older than \<open>now\<close>; a frame
  is applied to a store when the store afterwards is \<^verbatim>\<open>updateVehicles\<close> of the frame's
  vehicles (which also notifies the store's listeners once); an update frame has arrived
  since the connection was last reported closed.
\<close>

definition timestampFresh :: "(string \<Rightarrow> real option) \<Rightarrow> real \<Rightarrow> VehicleData \<Rightarrow> bool" where
  "timestampFresh parse now v =
     (case timestamp v of
        None \<Rightarrow> False
      | Some s \<Rightarrow> (case parse s of None \<Rightarrow> False | Some parsed \<Rightarrow> now - parsed \<le> 20000))"

definition applied :: "WsMessage \<Rightarrow> MainState \<Rightarrow> MainState \<Rightarrow> bool" where
  "applied msg s s' \<longleftrightarrow> store s' = updateVehicles (msg_vehicles msg) (store s)"

definition isUpdateFrame :: "main_event \<Rightarrow> bool" where
  "isUpdateFrame e = (case e of Frame now msg \<Rightarrow> msg_type msg = Update | Status c \<Rightarrow> False)"

fun updateSinceClose :: "bool \<Rightarrow> main_event list \<Rightarrow> bool" where
  "updateSinceClose b [] = b"
| "updateSinceClose b (Frame now msg # evs) = updateSinceClose (b \<or> msg_type msg = Update) evs"
| "updateSinceClose b (Status c # evs) = updateSinceClose (b \<and> c) evs"

definition staleSnapshot :: WsMessage where
  "staleSnapshot = \<lparr> msg_type = Snapshot, msg_vehicles = [sampleVehicle ''a'' ''1''] \<rparr>"

definition emptyUpdate :: WsMessage where
  "emptyUpdate = \<lparr> msg_type = Update, msg_vehicles = [] \<rparr>"

section \<open>The WebSocket client (ws-client.ts)\<close>

text \<open>
  \<^verbatim>\<open>WsClient\<close> as a state machine. A socket is known by the number the model gives it when
  \<^verbatim>\<open>new WebSocket(url)\<close> runs, a timer by the number \<^verbatim>\<open>setTimeout\<close> returns (never 0 in a
  browser), a listener by a number. Every call the client makes on the world outside it is an
  effect, in the order of the calls; \<open>SocketSend\<close> is \<^verbatim>\<open>WebSocket.send\<close>.
\<close>

datatype ws_effect =
    SocketNew nat string
  | SocketBinaryType nat string
  | SocketClose nat
  | SocketSend nat string
  | SetTimeout nat nat
  | ClearTimeout nat
  | StatusChanged bool
  | Dispatch nat WsMessage
  | ConsoleLog string
  | ConsoleError string

record WsClient =
  ws :: "nat option"
  listeners :: "nat list"
  reconnectTimeout :: "nat option"
  url :: string
  hasStatusHandler :: bool
  nextSocket :: nat
  nextTimer :: nat

definition newWsClient :: "string \<Rightarrow> WsClient" where
  "newWsClient u = \<lparr> ws = None, listeners = [], reconnectTimeout = None, url = u,
     hasStatusHandler = False, nextSocket = 0, nextTimer = 1 \<rparr>"

text \<open>\<^verbatim>\<open>this.onStatusChange?.(connected)\<close>\<close>

definition statusEffect :: "WsClient \<Rightarrow> bool \<Rightarrow> ws_effect list" where
  "statusEffect c b = (if hasStatusHandler c then [StatusChanged b] else [])"

text \<open>\<^verbatim>\<open>connect()\<close>: nothing when a socket is held, else a new socket with its four handlers.\<close>

definition connect :: "WsClient \<Rightarrow> WsClient \<times> ws_effect list" where
  "connect c =
     (case ws c of
        Some sock \<Rightarrow> (c, [])
      | None \<Rightarrow>
          (c\<lparr> ws := Some (nextSocket c), nextSocket := Suc (nextSocket c) \<rparr>,
           [SocketNew (nextSocket c) (url c), SocketBinaryType (nextSocket c) ''arraybuffer'']))"

definition onopen :: "WsClient \<Rightarrow> WsClient \<times> ws_effect list" where
  "onopen c = (c, ConsoleLog ''[WS] Connected'' # statusEffect c True)"

text \<open>
  \<^verbatim>\<open>onmessage\<close>: the payload decoded and parsed is \<open>Some msg\<close>, a payload that fails to parse is
  \<open>None\<close> and ends in the \<^verbatim>\<open>catch\<close>. Listeners are called in the order they subscribed.
\<close>

definition onmessage :: "WsMessage option \<Rightarrow> WsClient \<Rightarrow> WsClient \<times> ws_effect list" where
  "onmessage payload c =
     (case payload of
        Some msg \<Rightarrow> (c, map (\<lambda>listener. Dispatch listener msg) (listeners c))
      | None \<Rightarrow> (c, [ConsoleError ''[WS] Parse error:'']))"

definition onclose :: "WsClient \<Rightarrow> WsClient \<times> ws_effect list" where
  "onclose c =
     (c\<lparr> ws := None, reconnectTimeout := Some (nextTimer c), nextTimer := Suc (nextTimer c) \<rparr>,
      ConsoleLog ''[WS] Disconnected, reconnecting in 3s...''
        # statusEffect c False @ [SetTimeout (nextTimer c) 3000])"

text \<open>\<^verbatim>\<open>onerror\<close>: \<^verbatim>\<open>this.ws?.close()\<close> closes the socket the client holds now.\<close>

definition onerror :: "WsClient \<Rightarrow> WsClient \<times> ws_effect list" where
  "onerror c =
     (c, ConsoleError ''[WS] Error:'' # (case ws c of Some sock \<Rightarrow> [SocketClose sock] | None \<Rightarrow> []))"

definition subscribe :: "nat \<Rightarrow> WsClient \<Rightarrow> WsClient \<times> ws_effect list" where
  "subscribe listener c =
     (if listener \<in> set (listeners c) then (c, [])
      else (c\<lparr> listeners := listeners c @ [listener] \<rparr>, []))"

text \<open>The function \<^verbatim>\<open>subscribe\<close> returns: \<^verbatim>\<open>this.listeners.delete(listener)\<close>.\<close>

definition unsubscribe :: "nat \<Rightarrow> WsClient \<Rightarrow> WsClient \<times> ws_effect list" where
  "unsubscribe listener c = (c\<lparr> listeners := removeAll listener (listeners c) \<rparr>, [])"

definition disconnect :: "WsClient \<Rightarrow> WsClient \<times> ws_effect list" where
  "disconnect c =
     (c\<lparr> ws := None \<rparr>,
      (case reconnectTimeout c of
         Some t \<Rightarrow> if t \<noteq> 0 then [ClearTimeout t] else []
       | None \<Rightarrow> [])
      @ (case ws c of Some sock \<Rightarrow> [SocketClose sock] | None \<Rightarrow> []))"

text \<open>
  What can happen to the client: a call of its interface, an event of a socket it created
  (the handlers do not look at which socket fires), or the reconnect timer, which calls
  \<^verbatim>\<open>connect()\<close>.
\<close>

datatype ws_event =
    CallConnect
  | CallSubscribe nat
  | CallUnsubscribe nat
  | CallDisconnect
  | SetStatusHandler bool
  | SocketOpened nat
  | SocketMessage nat "WsMessage option"
  | SocketClosed nat
  | SocketErrored nat
  | TimerFired nat

fun wsStep :: "WsClient \<Rightarrow> ws_event \<Rightarrow> WsClient \<times> ws_effect list" where
  "wsStep c CallConnect = connect c"
| "wsStep c (CallSubscribe l) = subscribe l c"
| "wsStep c (CallUnsubscribe l) = unsubscribe l c"
| "wsStep c CallDisconnect = disconnect c"
| "wsStep c (SetStatusHandler b) = (c\<lparr> hasStatusHandler := b \<rparr>, [])"
| "wsStep c (SocketOpened sock) = onopen c"
| "wsStep c (SocketMessage sock payload) = onmessage payload c"
| "wsStep c (SocketClosed sock) = onclose c"
| "wsStep c (SocketErrored sock) = onerror c"
| "wsStep c (TimerFired t) = connect c"

text \<open>A run: the state after the events and every effect so far.\<close>

fun wsRun :: "WsClient \<times> ws_effect list \<Rightarrow> ws_event list \<Rightarrow> WsClient \<times> ws_effect list" where
  "wsRun (c, effs) [] = (c, effs)"
| "wsRun (c, effs) (e # es) = (let (c', new) = wsStep c e in wsRun (c', effs @ new) es)"

section \<open>The vehicle layer (vehicle-layer.ts)\<close>

text \<open>
  The current \<^verbatim>\<open>VehicleLayer\<close>, with route-snapped animation (\<^verbatim>\<open>src/unnamed/part_002\<close>); the
  earlier copy kept in \<^verbatim>\<open>route-layer.ts\<close> has the same loop without the geometry lookups.

  A Leaflet marker is the list of the calls made on it, the constructor first:
  \<^verbatim>\<open>L.marker([lat, lon], {icon: createIcon(route, signalLost), ...})\<close>, \<^verbatim>\<open>bindPopup(popupHtml(v))\<close>,
  \<^verbatim>\<open>addTo(layerGroup)\<close>, \<^verbatim>\<open>updateHeading(marker, course)\<close>, \<^verbatim>\<open>setLatLng\<close>, \<^verbatim>\<open>setIcon\<close> and
  \<^verbatim>\<open>setPopupContent\<close>. An icon is the two arguments of \<^verbatim>\<open>createIcon\<close>, a popup the vehicle
  \<^verbatim>\<open>popupHtml\<close> renders.
\<close>

datatype marker_call =
    NewMarker point string bool
  | BindPopup VehicleData
  | AddTo
  | UpdateHeading real
  | SetLatLng point
  | SetIcon string bool
  | SetPopupContent VehicleData

record TrackedVehicle =
  marker :: "marker_call list"
  tv_route :: string
  routeId :: "int option"
  signalLost :: bool
  prevProgress :: "real option"
  targetProgress :: "real option"
  prevLat :: real
  prevLon :: real
  prevCourse :: real
  targetLat :: real
  targetLon :: real
  targetCourse :: real
  targetSpeed :: real
  targetHasServerProgress :: bool
  updateTime :: real
  currentLat :: real
  currentLon :: real
  currentCourse :: real
  currentProgress :: "real option"

text \<open>
  \<^verbatim>\<open>VehicleLayer\<close>: \<^verbatim>\<open>tracked\<close> is a \<^verbatim>\<open>Map\<close> in insertion order, \<^verbatim>\<open>routeGeometries\<close> a \<^verbatim>\<open>Map\<close> read
  by key only. The layer group holds the markers added to it and not removed since; each is
  named by the id of the vehicle it was created for.
\<close>

record VehicleLayer =
  tracked :: "(string \<times> TrackedVehicle) list"
  layerGroup :: "string list"
  routeGeometries :: "int \<rightharpoonup> RouteGeometry"

definition newVehicleLayer :: VehicleLayer where
  "newVehicleLayer = \<lparr> tracked = [], layerGroup = [], routeGeometries = Map.empty \<rparr>"

definition MAX_ANIM_PROGRESS_DELTA :: real where
  "MAX_ANIM_PROGRESS_DELTA = 5 / 100"

text \<open>
  \<^verbatim>\<open>loadRoutes(routes)\<close>: the map is cleared, then every route with a geometry of at least two
  points gets its \<^verbatim>\<open>buildRouteGeometry\<close>.
\<close>

fun loadRoutesLoop :: "RouteInfo list \<Rightarrow> (int \<rightharpoonup> RouteGeometry) \<Rightarrow> js_error + (int \<rightharpoonup> RouteGeometry)" where
  "loadRoutesLoop [] m = Inr m"
| "loadRoutesLoop (r # rs) m =
     (case geometry r of
        None \<Rightarrow> loadRoutesLoop rs m
      | Some coords \<Rightarrow>
          if length coords \<ge> 2
          then (case buildRouteGeometry coords of
                  Inl e \<Rightarrow> Inl e
                | Inr geom \<Rightarrow> loadRoutesLoop rs (m(route_key r \<mapsto> geom)))
          else loadRoutesLoop rs m)"

definition loadRoutes :: "RouteInfo list \<Rightarrow> VehicleLayer \<Rightarrow> js_error + VehicleLayer" where
  "loadRoutes rs layer =
     (case loadRoutesLoop rs Map.empty of
        Inl e \<Rightarrow> Inl e
      | Inr m \<Rightarrow> Inr (layer\<lparr> routeGeometries := m \<rparr>))"

text \<open>\<^verbatim>\<open>v.route_id != null ? this.routeGeometries.get(v.route_id) : undefined\<close>\<close>

definition geomFor :: "VehicleLayer \<Rightarrow> VehicleData \<Rightarrow> RouteGeometry option" where
  "geomFor layer v = (case route_id v of None \<Rightarrow> None | Some r \<Rightarrow> routeGeometries layer r)"

text \<open>
  \<^verbatim>\<open>const p = pointAtProgress(geom, v.progress); const c = bearingAtProgress(geom, v.progress);\<close>
  as \<open>(p[0], p[1], c)\<close>.
\<close>

definition routedPose :: "RouteGeometry \<Rightarrow> real \<Rightarrow> js_error + (real \<times> real \<times> real)" where
  "routedPose geom pr =
     (case pointAtProgress geom pr of
        Inl e \<Rightarrow> Inl e
      | Inr p \<Rightarrow>
          (case bearingAtProgress geom pr of
             Inl e \<Rightarrow> Inl e
           | Inr c \<Rightarrow> Inr (fst p, snd p, c)))"

text \<open>
  The block the code writes three times, in the two branches of \<^verbatim>\<open>routeChanged\<close> and in the
  jump branch: previous and current pose and progress set to the same values, then
  \<^verbatim>\<open>setLatLng\<close> and \<^verbatim>\<open>updateHeading\<close> on the marker.
\<close>

definition teleport :: "real option \<Rightarrow> real \<Rightarrow> real \<Rightarrow> real \<Rightarrow> TrackedVehicle \<Rightarrow> TrackedVehicle" where
  "teleport pr la lo co tv =
     tv\<lparr> prevLat := la, prevLon := lo, prevCourse := co, prevProgress := pr,
         currentLat := la, currentLon := lo, currentCourse := co, currentProgress := pr,
         marker := marker tv @ [SetLatLng (la, lo), UpdateHeading co] \<rparr>"

text \<open>
  The branch \<^verbatim>\<open>if (tv)\<close> of the loop of \<^verbatim>\<open>update\<close>, block by block. First
  \<^verbatim>\<open>if (routeChanged) { ... }\<close>, on the vehicle whose previous pose has been set to the current
  one.
\<close>

definition onRouteChanged ::
  "bool \<Rightarrow> RouteGeometry option \<Rightarrow> VehicleData \<Rightarrow> TrackedVehicle \<Rightarrow> js_error + TrackedVehicle" where
  "onRouteChanged routeChanged geom v tv =
     (if routeChanged
      then (case (geom, progress v) of
              (Some g, Some pr) \<Rightarrow>
                (case routedPose g pr of
                   Inl e \<Rightarrow> Inl e
                 | Inr (la, lo, c) \<Rightarrow> Inr (teleport (progress v) la lo c tv))
            | _ \<Rightarrow> Inr (teleport (progress v) (lat v) (lon v) (course v) tv))
      else Inr tv)"

text \<open>
  \<^verbatim>\<open>if (!routeChanged && tv.prevProgress != null && v.progress != null && Math.abs(v.progress - tv.prevProgress) > MAX_ANIM_PROGRESS_DELTA) { ... }\<close>
\<close>

definition onProgressJump ::
  "bool \<Rightarrow> RouteGeometry option \<Rightarrow> VehicleData \<Rightarrow> TrackedVehicle \<Rightarrow> js_error + TrackedVehicle" where
  "onProgressJump routeChanged geom v tv =
     (case (prevProgress tv, progress v) of
        (Some pp, Some pr) \<Rightarrow>
          if \<not> routeChanged \<and> \<bar>pr - pp\<bar> > MAX_ANIM_PROGRESS_DELTA
          then (case geom of
                  Some g \<Rightarrow>
                    (case routedPose g pr of
                       Inl e \<Rightarrow> Inl e
                     | Inr (snapLat, snapLon, snapCourse) \<Rightarrow>
                         Inr (teleport (progress v) snapLat snapLon snapCourse tv))
                | None \<Rightarrow> Inr (teleport (progress v) (lat v) (lon v) (course v) tv))
          else Inr tv
      | _ \<Rightarrow> Inr tv)"

text \<open>The new target, from \<^verbatim>\<open>const hasGeom = !!geom\<close> to \<^verbatim>\<open>tv.updateTime = now\<close>.\<close>

definition setTarget :: "real \<Rightarrow> RouteGeometry option \<Rightarrow> VehicleData \<Rightarrow> TrackedVehicle \<Rightarrow> TrackedVehicle" where
  "setTarget now geom v tv =
     (let hasGeom = (geom \<noteq> None);
          targetProgress' =
            (if hasGeom \<and> progress v = None \<and> currentProgress tv \<noteq> None
             then currentProgress tv else progress v);
          targetHasServerProgress' = (progress v \<noteq> None)
      in tv\<lparr> targetLat := lat v, targetLon := lon v, targetCourse := course v,
               targetSpeed := speed v, targetProgress := targetProgress',
               targetHasServerProgress := targetHasServerProgress',
               routeId := route_id v, updateTime := now \<rparr>)"

text \<open>The icon, when the route number or the signal flag differs, and the popup.\<close>

definition refreshIcon :: "VehicleData \<Rightarrow> TrackedVehicle \<Rightarrow> TrackedVehicle" where
  "refreshIcon v tv =
     (let tv' = (if tv_route tv \<noteq> route v \<or> signalLost tv \<noteq> signal_lost v
                 then tv\<lparr> marker := marker tv @ [SetIcon (route v) (signal_lost v)],
                          tv_route := route v, signalLost := signal_lost v \<rparr>
                 else tv)
      in tv'\<lparr> marker := marker tv' @ [SetPopupContent v] \<rparr>)"

definition updateTracked ::
  "real \<Rightarrow> RouteGeometry option \<Rightarrow> VehicleData \<Rightarrow> TrackedVehicle \<Rightarrow> js_error + TrackedVehicle" where
  "updateTracked now geom v tv =
     (let routeChanged = (routeId tv \<noteq> route_id v);
          tv1 = tv\<lparr> prevLat := currentLat tv, prevLon := currentLon tv,
                     prevCourse := currentCourse tv, prevProgress := currentProgress tv \<rparr>
      in case onRouteChanged routeChanged geom v tv1 of
           Inl e \<Rightarrow> Inl e
         | Inr tv2 \<Rightarrow>
             (case onProgressJump routeChanged geom v tv2 of
                Inl e \<Rightarrow> Inl e
              | Inr tv3 \<Rightarrow> Inr (refreshIcon v (setTarget now geom v tv3))))"

text \<open>The \<^verbatim>\<open>else\<close> branch: a new marker and a new entry.\<close>

definition createTracked ::
  "real \<Rightarrow> RouteGeometry option \<Rightarrow> VehicleData \<Rightarrow> js_error + TrackedVehicle" where
  "createTracked now geom v =
     (let r = (case (geom, progress v) of
                 (Some g, Some pr) \<Rightarrow> routedPose g pr
               | _ \<Rightarrow> Inr (lat v, lon v, course v))
      in case r of
           Inl e \<Rightarrow> Inl e
         | Inr (initialLat, initialLon, initialCourse) \<Rightarrow>
             Inr \<lparr> marker = [NewMarker (initialLat, initialLon) (route v) (signal_lost v),
                              BindPopup v, AddTo, UpdateHeading initialCourse],
                   tv_route = route v, routeId = route_id v, signalLost = signal_lost v,
                   prevProgress = progress v, targetProgress = progress v,
                   prevLat = initialLat, prevLon = initialLon, prevCourse = initialCourse,
                   targetLat = lat v, targetLon = lon v, targetCourse = course v,
                   targetSpeed = speed v, targetHasServerProgress = (progress v \<noteq> None),
                   updateTime = now,
                   currentLat = initialLat, currentLon = initialLon, currentCourse = initialCourse,
                   currentProgress = progress v \<rparr>)"

text \<open>
  One turn of \<^verbatim>\<open>for (const v of vehicles)\<close>, after \<^verbatim>\<open>seen.add(v.id)\<close>. An exception leaves the
  loop and \<^verbatim>\<open>update\<close>.
\<close>

definition updateVehicle :: "real \<Rightarrow> VehicleData \<Rightarrow> VehicleLayer \<Rightarrow> js_error + VehicleLayer" where
  "updateVehicle now v layer =
     (case map_of (tracked layer) (id_v v) of
        Some tv \<Rightarrow>
          (case updateTracked now (geomFor layer v) v tv of
             Inl e \<Rightarrow> Inl e
           | Inr tv' \<Rightarrow> Inr (layer\<lparr> tracked := AList.update (id_v v) tv' (tracked layer) \<rparr>))
      | None \<Rightarrow>
          (case createTracked now (geomFor layer v) v of
             Inl e \<Rightarrow> Inl e
           | Inr tv' \<Rightarrow>
               Inr (layer\<lparr> tracked := AList.update (id_v v) tv' (tracked layer),
                           layerGroup := layerGroup layer @ [id_v v] \<rparr>)))"

fun updateLoop ::
  "real \<Rightarrow> VehicleData list \<Rightarrow> string set \<times> VehicleLayer \<Rightarrow> js_error + (string set \<times> VehicleLayer)" where
  "updateLoop now [] (seen, layer) = Inr (seen, layer)"
| "updateLoop now (v # vs) (seen, layer) =
     (case updateVehicle now v layer of
        Inl e \<Rightarrow> Inl e
      | Inr layer' \<Rightarrow> updateLoop now vs (insert (id_v v) seen, layer'))"

text \<open>
  \<^verbatim>\<open>for (const [id, tv] of this.tracked) if (!seen.has(id)) { this.layerGroup.removeLayer(tv.marker); this.tracked.delete(id); }\<close>
\<close>

definition removeStale :: "string set \<Rightarrow> VehicleLayer \<Rightarrow> VehicleLayer" where
  "removeStale seen layer =
     (let stale = filter (\<lambda>k. k \<notin> seen) (map fst (tracked layer))
      in layer\<lparr> layerGroup := filter (\<lambda>k. k \<notin> set stale) (layerGroup layer),
                tracked := filter (\<lambda>(k, tv). k \<in> seen) (tracked layer) \<rparr>)"

text \<open>\<^verbatim>\<open>update(vehicles)\<close>, with \<^verbatim>\<open>performance.now()\<close> as \<open>now\<close>.\<close>

definition update :: "real \<Rightarrow> VehicleData list \<Rightarrow> VehicleLayer \<Rightarrow> js_error + VehicleLayer" where
  "update now vs layer =
     (case updateLoop now vs ({}, layer) of
        Inl e \<Rightarrow> Inl e
      | Inr (seen, layer') \<Rightarrow> Inr (removeStale seen layer'))"

subsection \<open>Reference definitions for the vehicle layer\<close>

text \<open>
  A geometry on which \<^verbatim>\<open>pointAtProgress\<close> reads inside its arrays, as every geometry
  \<^verbatim>\<open>loadRoutes\<close> stores is; the ids with a marker in \<^verbatim>\<open>tracked\<close>.
\<close>

definition geomOK :: "RouteGeometry \<Rightarrow> bool" where
  "geomOK g \<longleftrightarrow> cumDist g \<noteq> [] \<and> length (cumDist g) \<le> length (points g)"

definition geomsOK :: "VehicleLayer \<Rightarrow> bool" where
  "geomsOK layer \<longleftrightarrow> (\<forall>g \<in> ran (routeGeometries layer). geomOK g)"

definition trackedIds :: "VehicleLayer \<Rightarrow> string set" where
  "trackedIds layer = fst ` set (tracked layer)"

section \<open>Properties of the route geometry\<close>

lemma segDist_nonneg: "0 \<le> segDist c a b"
  by (simp add: segDist_def)

lemma segDist_zero: "c \<noteq> 0 \<Longrightarrow> segDist c a b = 0 \<Longrightarrow> a = b"
proof -
  assume c: "c \<noteq> 0" and z: "segDist c a b = 0"
  let ?x = "(fst b - fst a) * M_PER_DEG_LAT" and ?y = "(snd b - snd a) * M_PER_DEG_LAT * c"
  from z have "?x * ?x + ?y * ?y = 0"
    by (simp add: segDist_def)
  then have "?x = 0 \<and> ?y = 0"
    by (simp add: sum_squares_eq_zero_iff)
  with c have "fst b = fst a \<and> snd b = snd a"
    by (simp add: M_PER_DEG_LAT_def)
  then show "a = b" by (simp add: prod_eq_iff)
qed

lemma cumLoop_eq:
  "cumLoop c prev ps acc tot = (acc @ runningDist c prev ps tot, last (tot # runningDist c prev ps tot))"
  by (induction ps arbitrary: prev acc tot) (simp_all add: Let_def segDist_def)

lemma runningDist_length: "length (runningDist c prev ps tot) = length ps"
  by (induction ps arbitrary: prev tot) simp_all

lemma runningDist_ge: "x \<in> set (runningDist c prev ps tot) \<Longrightarrow> tot \<le> x"
proof (induction ps arbitrary: prev tot)
  case Nil
  then show ?case by simp
next
  case (Cons p ps)
  have "tot \<le> tot + segDist c prev p" using segDist_nonneg [of c prev p] by simp
  with Cons show ?case by fastforce
qed

lemma runningDist_sorted: "sorted (tot # runningDist c prev ps tot)"
proof (induction ps arbitrary: prev tot)
  case Nil
  then show ?case by simp
next
  case (Cons p ps)
  have "sorted ((tot + segDist c prev p) # runningDist c p ps (tot + segDist c prev p))"
    by (rule Cons.IH)
  moreover have "\<forall>x \<in> set ((tot + segDist c prev p) # runningDist c p ps (tot + segDist c prev p)). tot \<le> x"
    using runningDist_ge [of _ c prev "p # ps" tot] by simp
  ultimately show ?case by simp
qed

lemma runningDist_last:
  "last (tot # runningDist c prev ps tot) = tot + polylineLength c (prev # ps)"
  by (induction ps arbitrary: prev tot) simp_all

lemma runningDist_first_eq:
  "c \<noteq> 0 \<Longrightarrow> j < length (prev # ps) \<Longrightarrow> (tot # runningDist c prev ps tot) ! j = tot
     \<Longrightarrow> (prev # ps) ! j = prev"
proof (induction ps arbitrary: prev tot j)
  case Nil
  then show ?case by simp
next
  case (Cons p ps)
  show ?case
  proof (cases j)
    case 0
    then show ?thesis by simp
  next
    case (Suc k)
    let ?t = "tot + segDist c prev p"
    from Cons.prems Suc have k: "k < length (p # ps)" and e: "(?t # runningDist c p ps ?t) ! k = tot"
      by simp_all
    have "(?t # runningDist c p ps ?t) ! k \<in> set (?t # runningDist c p ps ?t)"
      using k by (intro nth_mem) (simp add: runningDist_length)
    then have "?t \<le> (?t # runningDist c p ps ?t) ! k"
      using runningDist_ge [of _ c p ps ?t] by auto
    with e segDist_nonneg [of c prev p] have z: "segDist c prev p = 0" by simp
    then have pp: "prev = p" using segDist_zero Cons.prems(1) by blast
    from e z have "(?t # runningDist c p ps ?t) ! k = ?t" by simp
    from Cons.IH [OF Cons.prems(1) k this] have "(p # ps) ! k = p" .
    with Suc pp show ?thesis by simp
  qed
qed

lemma runningDist_eq_points:
  "c \<noteq> 0 \<Longrightarrow> i \<le> j \<Longrightarrow> j < length (prev # ps)
     \<Longrightarrow> (tot # runningDist c prev ps tot) ! i = (tot # runningDist c prev ps tot) ! j
     \<Longrightarrow> (prev # ps) ! i = (prev # ps) ! j"
proof (induction i arbitrary: prev ps tot j)
  case 0
  then show ?case using runningDist_first_eq [of c j prev ps tot] by simp
next
  case (Suc i)
  then obtain k where j: "j = Suc k" by (cases j) auto
  from Suc.prems j obtain p ps' where ps: "ps = p # ps'" by (cases ps) auto
  from Suc.prems j ps show ?case
    using Suc.IH [of k p ps' "tot + segDist c prev p"] by simp
qed


lemma searchSeg_props:
  "lo < hi \<Longrightarrow> cd ! lo \<le> x \<Longrightarrow> searchSeg cd x lo hi = (lo', hi')
     \<Longrightarrow> lo \<le> lo' \<and> hi' = Suc lo' \<and> hi' \<le> hi \<and> cd ! lo' \<le> x \<and> (hi' = hi \<or> x < cd ! hi')"
proof (induction cd x lo hi rule: searchSeg.induct)
  case (1 cd x lo hi)
  show ?case
  proof (cases "lo < hi - 1")
    case False
    with "1.prems" show ?thesis by (auto simp: searchSeg.simps [of cd x lo hi])
  next
    case True
    let ?mid = "(lo + hi) div 2"
    from True have m: "lo < ?mid" "?mid < hi" by auto
    show ?thesis
    proof (cases "cd ! ?mid \<le> x")
      case le: True
      from "1.prems"(3) True le have "searchSeg cd x ?mid hi = (lo', hi')"
        by (simp add: searchSeg.simps [of cd x lo hi] Let_def)
      from "1.IH"(1) [OF True refl le m(2) le this] m show ?thesis by auto
    next
      case gt: False
      from "1.prems"(3) True gt have "searchSeg cd x lo ?mid = (lo', hi')"
        by (simp add: searchSeg.simps [of cd x lo hi] Let_def)
      from "1.IH"(2) [OF True refl gt m(1) "1.prems"(2) this] m gt show ?thesis by auto
    qed
  qed
qed

lemma searchSeg_le:
  "lo \<le> hi \<Longrightarrow> searchSeg cd x lo hi = (lo', hi') \<Longrightarrow> lo' \<le> hi' \<and> hi' \<le> hi"
proof (induction cd x lo hi rule: searchSeg.induct)
  case (1 cd x lo hi)
  show ?case
  proof (cases "lo < hi - 1")
    case False
    with "1.prems" show ?thesis by (auto simp: searchSeg.simps [of cd x lo hi])
  next
    case True
    let ?mid = "(lo + hi) div 2"
    from True have m: "lo \<le> ?mid" "?mid \<le> hi" by auto
    show ?thesis
    proof (cases "cd ! ?mid \<le> x")
      case le: True
      from "1.prems"(2) True le have "searchSeg cd x ?mid hi = (lo', hi')"
        by (simp add: searchSeg.simps [of cd x lo hi] Let_def)
      from "1.IH"(1) [OF True refl le m(2) this] show ?thesis by auto
    next
      case gt: False
      from "1.prems"(2) True gt have "searchSeg cd x lo ?mid = (lo', hi')"
        by (simp add: searchSeg.simps [of cd x lo hi] Let_def)
      from "1.IH"(2) [OF True refl gt m(1) this] m show ?thesis by auto
    qed
  qed
qed

lemma buildRouteGeometry_Cons:
  "buildRouteGeometry (p0 # rest) =
     Inr \<lparr> points = p0 # rest,
           cumDist = 0 # runningDist (cos (fst p0 * DEG2RAD)) p0 rest 0,
           totalDist = last (0 # runningDist (cos (fst p0 * DEG2RAD)) p0 rest 0) \<rparr>"
  by (simp add: buildRouteGeometry_def cumLoop_eq Let_def)

text \<open>
  Claim C1. For every polyline with at least two points, \<^verbatim>\<open>buildRouteGeometry\<close> returns a
  geometry whose \<^verbatim>\<open>cumDist\<close> table has one entry per vertex, starts at 0, is monotone
  non-decreasing, and ends at \<^verbatim>\<open>totalDist\<close>, which is the length of the polyline (the sum of
  its segments' lengths).
\<close>

theorem buildRouteGeometry_cumDist:
  assumes "2 \<le> length coords"
  shows "\<exists>geom. buildRouteGeometry coords = Inr geom
           \<and> points geom = coords
           \<and> length (cumDist geom) = length coords
           \<and> cumDist geom ! 0 = 0
           \<and> sorted (cumDist geom)
           \<and> last (cumDist geom) = totalDist geom
           \<and> totalDist geom = polylineLength (cos (fst (coords ! 0) * DEG2RAD)) coords"
proof -
  from assms obtain p0 rest where c: "coords = p0 # rest" by (cases coords) auto
  show ?thesis
    unfolding c buildRouteGeometry_Cons
    using runningDist_sorted [of 0 "cos (fst p0 * DEG2RAD)" p0 rest]
      runningDist_last [of 0 "cos (fst p0 * DEG2RAD)" p0 rest]
    by (simp add: runningDist_length del: sorted_wrt.simps last.simps)
qed


lemma pointAtProgress_eval:
  assumes "cumDist g \<noteq> []"
    and "searchSeg (cumDist g) (max 0 (min 1 p) * totalDist g) 0 (length (cumDist g) - 1) = (lo, hi)"
    and "hi < length (points g)"
  shows "pointAtProgress g p =
     (let x = max 0 (min 1 p) * totalDist g;
          t = (if cumDist g ! hi - cumDist g ! lo > 0
               then (x - cumDist g ! lo) / (cumDist g ! hi - cumDist g ! lo) else 0)
      in Inr (fst (points g ! lo) + (fst (points g ! hi) - fst (points g ! lo)) * t,
              snd (points g ! lo) + (snd (points g ! hi) - snd (points g ! lo)) * t))"
  using assms by (simp add: pointAtProgress_def Let_def)

lemma pointAtProgress_no_throw:
  assumes "cumDist g \<noteq> []" and "length (cumDist g) \<le> length (points g)"
  shows "\<exists>q. pointAtProgress g p = Inr q"
proof -
  obtain lo hi where s: "searchSeg (cumDist g) (max 0 (min 1 p) * totalDist g) 0 (length (cumDist g) - 1) = (lo, hi)"
    by (cases "searchSeg (cumDist g) (max 0 (min 1 p) * totalDist g) 0 (length (cumDist g) - 1)")
  from searchSeg_le [OF _ s] have "hi \<le> length (cumDist g) - 1" by simp
  with assms have "hi < length (points g)" by (cases "cumDist g") auto
  from pointAtProgress_eval [OF assms(1) s this] show ?thesis by (simp add: Let_def)
qed

text \<open>
  Claim C2. On a geometry built from at least two points, \<^verbatim>\<open>pointAtProgress\<close> at any real
  progress \<open>p\<close>, below 0 and above 1 included, is \<^verbatim>\<open>pointAtProgress\<close> at \<open>p\<close> clamped to
  \<open>[0, 1]\<close>, and it returns a point (it does not throw).
\<close>

theorem pointAtProgress_clamps:
  assumes "2 \<le> length coords"
  shows "\<exists>geom. buildRouteGeometry coords = Inr geom
           \<and> pointAtProgress geom p = pointAtProgress geom (max 0 (min 1 p))
           \<and> (\<exists>q. pointAtProgress geom p = Inr q)"
proof -
  from assms obtain p0 rest where c: "coords = p0 # rest" by (cases coords) auto
  let ?g = "\<lparr> points = p0 # rest,
           cumDist = 0 # runningDist (cos (fst p0 * DEG2RAD)) p0 rest 0,
           totalDist = last (0 # runningDist (cos (fst p0 * DEG2RAD)) p0 rest 0) \<rparr>"
  have "max 0 (min 1 (max 0 (min 1 p))) = max 0 (min 1 p)" by simp
  then have "pointAtProgress ?g p = pointAtProgress ?g (max 0 (min 1 p))"
    unfolding pointAtProgress_def by presburger
  moreover have "\<exists>q. pointAtProgress ?g p = Inr q"
    by (rule pointAtProgress_no_throw) (simp_all add: runningDist_length)
  ultimately show ?thesis unfolding c buildRouteGeometry_Cons by blast
qed

text \<open>
  The endpoints in exact arithmetic. When the cosine of the first latitude is not 0, a segment
  of length 0 joins two equal points, and \<^verbatim>\<open>pointAtProgress\<close> gives the first vertex at
  progress 0 and the last vertex at progress 1. This is a fact of the algorithm over the
  reals only. The program computes on doubles: there \<^verbatim>\<open>a + (b - a) * 1\<close> need not be \<^verbatim>\<open>b\<close>, a
  segment shorter than half a unit in the last place of the running sum leaves \<^verbatim>\<open>cumDist\<close>
  unchanged between two distinct points, and \<^verbatim>\<open>Math.cos\<close> is not 0 at a pole. What the program
  returns at the two ends is therefore not decided by this lemma.
\<close>

lemma pointAtProgress_endpoints_exact:
  assumes "2 \<le> length coords" and "cos (fst (hd coords) * DEG2RAD) \<noteq> 0"
  shows "\<exists>geom. buildRouteGeometry coords = Inr geom
           \<and> pointAtProgress geom 0 = Inr (hd coords)
           \<and> pointAtProgress geom 1 = Inr (last coords)"
proof -
  from assms obtain p0 rest where c: "coords = p0 # rest" by (cases coords) auto
  define cl where "cl = cos (fst p0 * DEG2RAD)"
  define cd where "cd = 0 # runningDist cl p0 rest 0"
  define g where "g = \<lparr> points = p0 # rest, cumDist = cd, totalDist = last cd \<rparr>"
  have build: "buildRouteGeometry coords = Inr g"
    unfolding c buildRouteGeometry_Cons g_def cd_def cl_def ..
  from assms(2) c have cl0: "cl \<noteq> 0" by (simp add: cl_def)
  have len: "length cd = length (p0 # rest)" by (simp add: cd_def runningDist_length)
  with assms(1) c have n2: "0 < length cd - 1" by auto
  have srt: "sorted cd" unfolding cd_def by (rule runningDist_sorted)
  have cd0: "cd ! 0 = 0" by (simp add: cd_def)
  have lastcd: "last cd = cd ! (length cd - 1)" by (rule last_conv_nth) (simp add: cd_def)
  have mono: "i \<le> j \<Longrightarrow> j < length cd \<Longrightarrow> cd ! i \<le> cd ! j" for i j
    using srt by (simp add: sorted_iff_nth_mono)
  have same: "i \<le> j \<Longrightarrow> j < length cd \<Longrightarrow> cd ! i = cd ! j \<Longrightarrow> (p0 # rest) ! i = (p0 # rest) ! j" for i j
    using runningDist_eq_points [OF cl0, of i j p0 rest 0] len by (simp add: cd_def)
  have gs: "cumDist g = cd" "points g = p0 # rest" "totalDist g = last cd" by (simp_all add: g_def)
  have ne: "cumDist g \<noteq> []" by (simp add: gs cd_def)
  \<comment> \<open>progress 0\<close>
  obtain lo hi where s0: "searchSeg cd 0 0 (length cd - 1) = (lo, hi)"
    by (cases "searchSeg cd 0 0 (length cd - 1)")
  from searchSeg_props [OF n2 _ s0] cd0
  have p0s: "hi = Suc lo" "hi \<le> length cd - 1" "cd ! lo \<le> 0" by auto
  from p0s n2 have hil: "hi < length cd" by simp
  from mono [of 0 lo] p0s hil cd0 have lo0: "cd ! lo = 0" by simp
  from same [of 0 lo] lo0 cd0 p0s hil have plo: "(p0 # rest) ! lo = p0" by simp
  have s0': "searchSeg (cumDist g) (max 0 (min 1 0) * totalDist g) 0 (length (cumDist g) - 1) = (lo, hi)"
    using s0 by (simp add: gs)
  have at0: "pointAtProgress g 0 = Inr p0"
    using pointAtProgress_eval [OF ne s0'] hil len lo0 plo by (simp add: gs Let_def)
  \<comment> \<open>progress 1\<close>
  have tot0: "0 \<le> last cd" using mono [of 0 "length cd - 1"] cd0 lastcd n2 by simp
  obtain lo1 hi1 where s1: "searchSeg cd (last cd) 0 (length cd - 1) = (lo1, hi1)"
    by (cases "searchSeg cd (last cd) 0 (length cd - 1)")
  from searchSeg_props [OF n2 _ s1] cd0 tot0
  have p1s: "hi1 = Suc lo1" "hi1 \<le> length cd - 1" "cd ! lo1 \<le> last cd"
    "hi1 = length cd - 1 \<or> last cd < cd ! hi1" by auto
  from p1s n2 have hil1: "hi1 < length cd" by simp
  from mono [of hi1 "length cd - 1"] p1s(2) n2 lastcd have "cd ! hi1 \<le> last cd" by simp
  with p1s(4) have hi1: "hi1 = length cd - 1" by auto
  then have cdhi: "cd ! hi1 = last cd" using lastcd by simp
  have phi: "(p0 # rest) ! hi1 = last (p0 # rest)"
    using hi1 len by (simp add: last_conv_nth)
  have s1': "searchSeg (cumDist g) (max 0 (min 1 1) * totalDist g) 0 (length (cumDist g) - 1) = (lo1, hi1)"
    using s1 by (simp add: gs)
  have at1: "pointAtProgress g 1 = Inr (last (p0 # rest))"
  proof (cases "cd ! hi1 - cd ! lo1 > 0")
    case True
    then have "(last cd - cd ! lo1) / (cd ! hi1 - cd ! lo1) = 1" using cdhi by simp
    with True show ?thesis
      using pointAtProgress_eval [OF ne s1'] hil1 len phi by (simp add: gs Let_def)
  next
    case False
    with p1s(3) cdhi have "cd ! lo1 = cd ! hi1" by simp
    from same [OF _ hil1 this] p1s(1) have "(p0 # rest) ! lo1 = (p0 # rest) ! hi1" by simp
    with False show ?thesis
      using pointAtProgress_eval [OF ne s1'] hil1 len phi by (simp add: gs Let_def)
  qed
  from build at0 at1 show ?thesis by (simp add: c)
qed

theorem buildRouteGeometry_cumDist_witness:
  "2 \<le> length ([(0, 0), (0, 0), (1, 1)] :: point list)
   \<and> (\<exists>geom. buildRouteGeometry [(0, 0), (0, 0), (1, 1)] = Inr geom
         \<and> length (cumDist geom) = 3 \<and> cumDist geom ! 0 = 0 \<and> sorted (cumDist geom)
         \<and> last (cumDist geom) = totalDist geom)"
proof -
  have h: "2 \<le> length ([(0, 0), (0, 0), (1, 1)] :: point list)" by simp
  from buildRouteGeometry_cumDist [OF h] obtain geom where
    "buildRouteGeometry [(0, 0), (0, 0), (1, 1)] = Inr geom"
    "length (cumDist geom) = length ([(0, 0), (0, 0), (1, 1)] :: point list)"
    "cumDist geom ! 0 = 0" "sorted (cumDist geom)" "last (cumDist geom) = totalDist geom"
    by blast
  with h show ?thesis by auto
qed

theorem pointAtProgress_clamps_witness:
  "2 \<le> length ([(0, 0), (0, 0), (1, 1)] :: point list)
   \<and> (\<exists>geom. buildRouteGeometry [(0, 0), (0, 0), (1, 1)] = Inr geom
         \<and> pointAtProgress geom (- 3) = pointAtProgress geom 0
         \<and> pointAtProgress geom 7 = pointAtProgress geom 1)"
proof -
  have h: "2 \<le> length ([(0, 0), (0, 0), (1, 1)] :: point list)" by simp
  from pointAtProgress_clamps [OF h, of "- 3"] pointAtProgress_clamps [OF h, of 7]
  show ?thesis using h by auto
qed

section \<open>Properties of the travel direction\<close>

lemma js_rem_nonneg_360:
  assumes "0 \<le> d"
  shows "js_rem d 360 = d - 360 * of_int \<lfloor>d / 360\<rfloor>"
    and "0 \<le> js_rem d 360" and "js_rem d 360 < 360"
proof -
  from assms have q: "0 \<le> d / 360" by simp
  then show e: "js_rem d 360 = d - 360 * of_int \<lfloor>d / 360\<rfloor>"
    by (simp add: js_rem_def)
  have "of_int \<lfloor>d / 360\<rfloor> \<le> d / 360" by (rule of_int_floor_le)
  then show "0 \<le> js_rem d 360" unfolding e by simp
  have "d / 360 < of_int \<lfloor>d / 360\<rfloor> + 1" by linarith
  then show "js_rem d 360 < 360" unfolding e by linarith
qed

lemma absAngleDiffDeg_range: "0 \<le> absAngleDiffDeg a b \<and> absAngleDiffDeg a b \<le> 180"
  using js_rem_nonneg_360 (2,3) [of "\<bar>a - b\<bar>"]
  by (simp add: absAngleDiffDeg_def Let_def)

lemma absAngleDiffDeg_attained: "\<exists>k::int. absAngleDiffDeg a b = \<bar>a - b + 360 * of_int k\<bar>"
proof -
  define q where "q = \<lfloor>\<bar>a - b\<bar> / 360\<rfloor>"
  define r where "r = \<bar>a - b\<bar> - 360 * of_int q"
  have r: "js_rem \<bar>a - b\<bar> 360 = r" "0 \<le> r" "r < 360"
    using js_rem_nonneg_360 [of "\<bar>a - b\<bar>"] by (simp_all add: r_def q_def)
  show ?thesis
  proof (cases "0 \<le> a - b")
    case True
    show ?thesis
    proof (cases "r > 180")
      case False
      with r True have "absAngleDiffDeg a b = \<bar>a - b + 360 * of_int (- q)\<bar>"
        by (simp add: absAngleDiffDeg_def r_def)
      then show ?thesis ..
    next
      case gt: True
      with r True have "absAngleDiffDeg a b = \<bar>a - b + 360 * of_int (- q - 1)\<bar>"
        by (simp add: absAngleDiffDeg_def r_def)
      then show ?thesis ..
    qed
  next
    case neg: False
    show ?thesis
    proof (cases "r > 180")
      case False
      with r neg have "absAngleDiffDeg a b = \<bar>a - b + 360 * of_int q\<bar>"
        by (simp add: absAngleDiffDeg_def r_def)
      then show ?thesis ..
    next
      case gt: True
      with r neg have "absAngleDiffDeg a b = \<bar>a - b + 360 * of_int (q + 1)\<bar>"
        by (simp add: absAngleDiffDeg_def r_def)
      then show ?thesis ..
    qed
  qed
qed

lemma absAngleDiffDeg_least: "absAngleDiffDeg a b \<le> \<bar>a - b + 360 * of_int k\<bar>"
proof -
  define q where "q = \<lfloor>\<bar>a - b\<bar> / 360\<rfloor>"
  define r where "r = \<bar>a - b\<bar> - 360 * of_int q"
  have r: "js_rem \<bar>a - b\<bar> 360 = r" "0 \<le> r" "r < 360"
    using js_rem_nonneg_360 [of "\<bar>a - b\<bar>"] by (simp_all add: r_def q_def)
  have v: "absAngleDiffDeg a b = min r (360 - r)"
    using r by (simp add: absAngleDiffDeg_def min_def)
  have key: "min r (360 - r) \<le> \<bar>r + 360 * of_int m\<bar>" for m :: int
  proof (cases "0 \<le> m")
    case True
    then have "0 \<le> 360 * (of_int m :: real)" by simp
    with r show ?thesis by simp
  next
    case False
    then have "m \<le> - 1" by simp
    then have "(of_int m :: real) \<le> - 1" by (metis of_int_le_iff of_int_minus of_int_1)
    then have "r + 360 * of_int m \<le> r - 360" by simp
    with r show ?thesis by simp
  qed
  show ?thesis
  proof (cases "0 \<le> a - b")
    case True
    then have "a - b + 360 * of_int k = r + 360 * of_int (q + k)"
      by (simp add: r_def algebra_simps)
    with key [of "q + k"] v show ?thesis by simp
  next
    case False
    then have "a - b + 360 * of_int k = - (r + 360 * of_int (q - k))"
      by (simp add: r_def algebra_simps)
    with key [of "q - k"] v show ?thesis by simp
  qed
qed


lemma bearingAtProgress_no_throw:
  assumes "cumDist g \<noteq> []" and "length (cumDist g) \<le> length (points g)"
  shows "\<exists>b. bearingAtProgress g p = Inr b"
proof -
  from pointAtProgress_no_throw [OF assms] obtain p1 where
    p1: "pointAtProgress g (max 0 (p - 1 / 1000)) = Inr p1" by blast
  from pointAtProgress_no_throw [OF assms] obtain p2 where
    p2: "pointAtProgress g (min 1 (p + 1 / 1000)) = Inr p2" by blast
  from p1 p2 show ?thesis by (simp add: bearingAtProgress_def Let_def)
qed

text \<open>
  Claim C5. On a geometry built from at least two points \<^verbatim>\<open>inferTravelDir\<close> returns: when the
  two progress values differ by more than 0.0001, \<open>+1\<close> if the target is not below the previous
  one and \<open>-1\<close> otherwise; when they differ by at most 0.0001, \<open>-1\<close> if
  \<^verbatim>\<open>absAngleDiffDeg(targetCourse, bearingAtProgress(geom, targetProgress))\<close> exceeds 90 and \<open>+1\<close>
  otherwise. The bearing is defined there, and \<^verbatim>\<open>absAngleDiffDeg\<close> is the shortest angular
  difference: it lies in \<open>[0, 180]\<close>, is the distance of the two angles for some number of full
  turns, and no number of full turns gives a smaller one.
\<close>

theorem inferTravelDir_cases:
  assumes "2 \<le> length coords"
  shows "\<exists>geom rb. buildRouteGeometry coords = Inr geom
           \<and> bearingAtProgress geom target = Inr rb
           \<and> inferTravelDir geom prev target crs =
               Inr (if \<bar>target - prev\<bar> > 1 / 10000
                    then (if target \<ge> prev then 1 else - 1)
                    else (if absAngleDiffDeg crs rb > 90 then - 1 else 1))
           \<and> 0 \<le> absAngleDiffDeg crs rb \<and> absAngleDiffDeg crs rb \<le> 180
           \<and> (\<exists>k::int. absAngleDiffDeg crs rb = \<bar>crs - rb + 360 * of_int k\<bar>)
           \<and> (\<forall>k::int. absAngleDiffDeg crs rb \<le> \<bar>crs - rb + 360 * of_int k\<bar>)"
proof -
  from assms obtain p0 rest where c: "coords = p0 # rest" by (cases coords) auto
  define g where "g = \<lparr> points = p0 # rest,
           cumDist = 0 # runningDist (cos (fst p0 * DEG2RAD)) p0 rest 0,
           totalDist = last (0 # runningDist (cos (fst p0 * DEG2RAD)) p0 rest 0) \<rparr>"
  have build: "buildRouteGeometry coords = Inr g"
    unfolding c g_def by (rule buildRouteGeometry_Cons)
  have "\<exists>b. bearingAtProgress g target = Inr b"
    by (rule bearingAtProgress_no_throw) (simp_all add: g_def runningDist_length)
  then obtain rb where rb: "bearingAtProgress g target = Inr rb" ..
  have dir: "inferTravelDir g prev target crs =
               Inr (if \<bar>target - prev\<bar> > 1 / 10000
                    then (if target \<ge> prev then 1 else - 1)
                    else (if absAngleDiffDeg crs rb > 90 then - 1 else 1))"
    by (simp add: inferTravelDir_def rb)
  from build rb dir absAngleDiffDeg_range [of crs rb]
    absAngleDiffDeg_attained [of crs rb] absAngleDiffDeg_least [of crs rb]
  show ?thesis by blast
qed

theorem inferTravelDir_cases_witness:
  "2 \<le> length ([(0, 0), (1, 0)] :: point list)
   \<and> (\<exists>geom rb. buildRouteGeometry [(0, 0), (1, 0)] = Inr geom
         \<and> bearingAtProgress geom (1 / 2) = Inr rb
         \<and> inferTravelDir geom (1 / 2) (1 / 2) 180 = Inr (if absAngleDiffDeg 180 rb > 90 then - 1 else 1))
   \<and> (\<exists>geom. buildRouteGeometry [(0, 0), (1, 0)] = Inr geom
         \<and> inferTravelDir geom (1 / 2) (1 / 4) 0 = Inr (- 1))"
proof -
  have h: "2 \<le> length ([(0, 0), (1, 0)] :: point list)" by simp
  from inferTravelDir_cases [OF h, of "1 / 2" "1 / 2" 180] obtain geom rb where
    g: "buildRouteGeometry [(0, 0), (1, 0)] = Inr geom" "bearingAtProgress geom (1 / 2) = Inr rb"
    and d: "inferTravelDir geom (1 / 2) (1 / 2) 180 =
       Inr (if \<bar>1 / 2 - 1 / 2 :: real\<bar> > 1 / 10000 then (if (1 / 2 :: real) \<ge> 1 / 2 then 1 else - 1)
            else (if absAngleDiffDeg 180 rb > 90 then - 1 else 1))"
    by blast
  from d have "inferTravelDir geom (1 / 2) (1 / 2) 180 = Inr (if absAngleDiffDeg 180 rb > 90 then - 1 else 1)"
    by (simp del: if_split)
  with g have a: "\<exists>geom rb. buildRouteGeometry [(0, 0), (1, 0)] = Inr geom
         \<and> bearingAtProgress geom (1 / 2) = Inr rb
         \<and> inferTravelDir geom (1 / 2) (1 / 2) 180 = Inr (if absAngleDiffDeg 180 rb > 90 then - 1 else 1)"
    by blast
  from inferTravelDir_cases [OF h, of "1 / 4" "1 / 2" 0]
  have b: "\<exists>geom. buildRouteGeometry [(0, 0), (1, 0)] = Inr geom
         \<and> inferTravelDir geom (1 / 2) (1 / 4) 0 = Inr (- 1)"
    by auto
  from h a b show ?thesis by blast
qed

section \<open>Properties of the state store\<close>


lemma map_of_fold_update:
  "map_of (foldl (\<lambda>m v. AList.update (id_v v) v m) al vs)
     = map_of al ++ map_of (rev (map (\<lambda>v. (id_v v, v)) vs))"
proof (induction vs arbitrary: al)
  case Nil
  then show ?case by simp
next
  case (Cons v vs)
  have "map_of (foldl (\<lambda>m v. AList.update (id_v v) v m) (AList.update (id_v v) v al) vs)
      = (map_of al)(id_v v \<mapsto> v) ++ map_of (rev (map (\<lambda>v. (id_v v, v)) vs))"
    by (simp only: Cons.IH update_conv')
  also have "\<dots> = map_of al ++ ([id_v v \<mapsto> v] ++ map_of (rev (map (\<lambda>v. (id_v v, v)) vs)))"
    by (rule ext) (simp add: map_add_def split: option.splits)
  finally show ?case by simp
qed

lemma vehicles_updateVehicles:
  "map_of (vehicles (updateVehicles vs st))
     = map_of (vehicles st) ++ map_of (rev (map (\<lambda>v. (id_v v, v)) vs))"
  by (simp add: updateVehicles_def notify_def map_of_fold_update)

lemma dom_rev_pairs: "dom (map_of (rev (map (\<lambda>v. (id_v v, v)) vs))) = id_v ` set vs"
  by (simp add: dom_map_of_conv_image_fst image_image)

lemma map_of_rev_pairs_Some:
  "map_of (rev (map (\<lambda>v. (id_v v, v)) vs)) k = Some v \<Longrightarrow> v \<in> set vs \<and> id_v v = k"
  by (auto dest!: map_of_SomeD)

text \<open>
  Claim C8. \<^verbatim>\<open>store.updateVehicles(vs)\<close> leaves the entry of every key that is not the id of a
  vehicle in \<open>vs\<close> as it was, stores under each id in \<open>vs\<close> a vehicle of \<open>vs\<close> with that id,
  and removes nothing: the keys afterwards are the keys before together with the ids in
  \<open>vs\<close>. With the empty list the map is the same.
\<close>

theorem updateVehicles_frame:
  "(\<forall>k. k \<notin> id_v ` set vs \<longrightarrow>
        map_of (vehicles (updateVehicles vs st)) k = map_of (vehicles st) k)
   \<and> (\<forall>k \<in> id_v ` set vs. \<exists>v \<in> set vs. id_v v = k \<and> map_of (vehicles (updateVehicles vs st)) k = Some v)
   \<and> dom (map_of (vehicles (updateVehicles vs st))) = dom (map_of (vehicles st)) \<union> id_v ` set vs
   \<and> dom (map_of (vehicles st)) \<subseteq> dom (map_of (vehicles (updateVehicles vs st)))
   \<and> vehicles (updateVehicles [] st) = vehicles st"
proof (intro conjI allI impI ballI)
  fix k assume "k \<notin> id_v ` set vs"
  then have "k \<notin> dom (map_of (rev (map (\<lambda>v. (id_v v, v)) vs)))"
    by (simp add: dom_rev_pairs)
  then have "map_of (rev (map (\<lambda>v. (id_v v, v)) vs)) k = None"
    by (simp add: domIff)
  then show "map_of (vehicles (updateVehicles vs st)) k = map_of (vehicles st) k"
    by (simp add: vehicles_updateVehicles map_add_def)
next
  fix k assume "k \<in> id_v ` set vs"
  then have "k \<in> dom (map_of (rev (map (\<lambda>v. (id_v v, v)) vs)))"
    by (simp add: dom_rev_pairs)
  then obtain v where v: "map_of (rev (map (\<lambda>v. (id_v v, v)) vs)) k = Some v"
    by (auto simp: domIff)
  from map_of_rev_pairs_Some [OF v] have "v \<in> set vs" "id_v v = k" by simp_all
  moreover from v have "map_of (vehicles (updateVehicles vs st)) k = Some v"
    by (simp add: vehicles_updateVehicles map_add_def)
  ultimately show "\<exists>v \<in> set vs. id_v v = k \<and> map_of (vehicles (updateVehicles vs st)) k = Some v"
    by blast
next
  show d: "dom (map_of (vehicles (updateVehicles vs st))) = dom (map_of (vehicles st)) \<union> id_v ` set vs"
    by (simp only: vehicles_updateVehicles dom_map_add dom_rev_pairs Un_commute)
  then show "dom (map_of (vehicles st)) \<subseteq> dom (map_of (vehicles (updateVehicles vs st)))"
    by blast
next
  show "vehicles (updateVehicles [] st) = vehicles st"
    by (simp add: updateVehicles_def notify_def)
qed

lemma foldl_push_filter:
  "foldl (\<lambda>result v. if P v then result @ [v] else result) acc xs = acc @ filter P xs"
  by (induction xs arbitrary: acc) simp_all

text \<open>
  Claim C9. \<^verbatim>\<open>store.getVisibleVehicles()\<close> returns every stored vehicle, in the map's order,
  when \<^verbatim>\<open>enabledRoutes\<close> is empty, and otherwise the stored vehicles whose route number is in
  \<^verbatim>\<open>enabledRoutes\<close>; after \<^verbatim>\<open>disableAllRoutes()\<close> it returns all of them.
\<close>

theorem getVisibleVehicles_filter:
  "getVisibleVehicles st =
     (if enabledRoutes st = {||} then map snd (vehicles st)
      else filter (\<lambda>v. route v |\<in>| enabledRoutes st) (map snd (vehicles st)))
   \<and> getVisibleVehicles (disableAllRoutes st) = map snd (vehicles st)"
proof (rule conjI)
  have "0 < fcard (enabledRoutes st) \<longleftrightarrow> enabledRoutes st \<noteq> {||}"
    unfolding neq0_conv [symmetric] by simp
  then show "getVisibleVehicles st =
     (if enabledRoutes st = {||} then map snd (vehicles st)
      else filter (\<lambda>v. route v |\<in>| enabledRoutes st) (map snd (vehicles st)))"
    by (simp add: getVisibleVehicles_def foldl_push_filter)
  show "getVisibleVehicles (disableAllRoutes st) = map snd (vehicles st)"
    by (simp add: getVisibleVehicles_def foldl_push_filter disableAllRoutes_def notify_def)
qed

theorem updateVehicles_frame_witness:
  "''a'' \<notin> id_v ` set [sampleVehicle ''b'' ''2'']
   \<and> map_of (vehicles (updateVehicles [sampleVehicle ''b'' ''2'']
          (initialState\<lparr> vehicles := [(''a'', sampleVehicle ''a'' ''1'')] \<rparr>))) ''a''
       = Some (sampleVehicle ''a'' ''1'')
   \<and> dom (map_of (vehicles (updateVehicles [sampleVehicle ''b'' ''2'']
          (initialState\<lparr> vehicles := [(''a'', sampleVehicle ''a'' ''1'')] \<rparr>)))) = {''a'', ''b''}"
proof -
  have n: "''a'' \<notin> id_v ` set [sampleVehicle ''b'' ''2'']"
    by (simp add: sampleVehicle_def)
  from updateVehicles_frame [of "[sampleVehicle ''b'' ''2'']"
      "initialState\<lparr> vehicles := [(''a'', sampleVehicle ''a'' ''1'')] \<rparr>"]
  have "\<forall>k. k \<notin> id_v ` set [sampleVehicle ''b'' ''2''] \<longrightarrow>
          map_of (vehicles (updateVehicles [sampleVehicle ''b'' ''2'']
            (initialState\<lparr> vehicles := [(''a'', sampleVehicle ''a'' ''1'')] \<rparr>))) k
          = map_of (vehicles (initialState\<lparr> vehicles := [(''a'', sampleVehicle ''a'' ''1'')] \<rparr>)) k"
    and "dom (map_of (vehicles (updateVehicles [sampleVehicle ''b'' ''2'']
          (initialState\<lparr> vehicles := [(''a'', sampleVehicle ''a'' ''1'')] \<rparr>))))
        = dom (map_of (vehicles (initialState\<lparr> vehicles := [(''a'', sampleVehicle ''a'' ''1'')] \<rparr>)))
          \<union> id_v ` set [sampleVehicle ''b'' ''2'']"
    by blast+
  with n show ?thesis by (auto simp: sampleVehicle_def)
qed

theorem getVisibleVehicles_filter_witness:
  "getVisibleVehicles (initialState\<lparr> vehicles := [(''a'', sampleVehicle ''a'' ''1''), (''b'', sampleVehicle ''b'' ''2'')],
        enabledRoutes := {|''2''|} \<rparr>) = [sampleVehicle ''b'' ''2'']
   \<and> getVisibleVehicles (disableAllRoutes (initialState\<lparr> vehicles := [(''a'', sampleVehicle ''a'' ''1''), (''b'', sampleVehicle ''b'' ''2'')],
        enabledRoutes := {|''2''|} \<rparr>)) = [sampleVehicle ''a'' ''1'', sampleVehicle ''b'' ''2'']"
  using getVisibleVehicles_filter [of "initialState\<lparr> vehicles := [(''a'', sampleVehicle ''a'' ''1''), (''b'', sampleVehicle ''b'' ''2'')],
        enabledRoutes := {|''2''|} \<rparr>"]
  by (simp add: sampleVehicle_def)

section \<open>Properties of the route colours\<close>

lemma js_rem_int_range:
  "0 \<le> js_rem_int n 24 \<and> js_rem_int n 24 < 24 \<longleftrightarrow> 0 \<le> n \<or> n mod 24 = 0"
proof (cases "0 \<le> n")
  case True
  then show ?thesis by (simp add: js_rem_int_def sgn_if)
next
  case False
  then have "js_rem_int n 24 = - ((- n) mod 24)" by (simp add: js_rem_int_def sgn_if)
  moreover have "(- n) mod 24 = 0 \<longleftrightarrow> n mod 24 = 0" by presburger
  moreover have "0 \<le> (- n) mod 24" by simp
  ultimately show ?thesis using False by auto
qed

lemma colorAt_defined: "colorAt i \<noteq> None \<longleftrightarrow> 0 \<le> i \<and> i < 24"
  by (simp add: colorAt_def COLORS_def)

text \<open>
  On a string whose integer \<^verbatim>\<open>parseInt\<close> holds exactly (below \<open>2^53\<close> in size) or that has no
  integer to read, \<^verbatim>\<open>routeColor\<close> returns an entry of the palette except when the integer is
  negative and no multiple of 24: there \<^verbatim>\<open>num % COLORS.length\<close> is negative and \<^verbatim>\<open>COLORS[...]\<close>
  is \<^verbatim>\<open>undefined\<close>. The hash branch takes \<^verbatim>\<open>Math.abs\<close> first.
\<close>

lemma routeColor_undefined_iff:
  assumes "\<And>n. parseInt10 s = Some n \<Longrightarrow> \<bar>n\<bar> < 2 ^ 53"
  shows "routeColor s = None \<longleftrightarrow> (\<exists>n. parseInt10 s = Some n \<and> n < 0 \<and> n mod 24 \<noteq> 0)"
proof (cases "parseInt10 s")
  case None
  have "0 \<le> js_rem_int \<bar>hashLoop s\<bar> 24 \<and> js_rem_int \<bar>hashLoop s\<bar> 24 < 24"
    by (subst js_rem_int_range) simp
  then have "colorAt (js_rem_int \<bar>hashLoop s\<bar> 24) \<noteq> None"
    by (simp only: colorAt_defined)
  moreover have "int (length COLORS) = 24" by (simp add: COLORS_def)
  ultimately show ?thesis using None by (simp add: routeColor_def)
next
  case (Some n)
  have len: "int (length COLORS) = 24" by (simp add: COLORS_def)
  have "colorAt (js_rem_int n 24) = None \<longleftrightarrow> \<not> (0 \<le> n \<or> n mod 24 = 0)"
    using colorAt_defined [of "js_rem_int n 24"] js_rem_int_range [of n] by auto
  then show ?thesis using Some by (auto simp: routeColor_def len)
qed

text \<open>
  Claim C10, at the string \<^verbatim>\<open>"-1"\<close> (code units 45 and 49): \<^verbatim>\<open>parseInt\<close> gives \<open>-1\<close>,
  \<^verbatim>\<open>-1 % 24\<close> is \<open>-1\<close>, and \<^verbatim>\<open>COLORS[-1]\<close> is \<^verbatim>\<open>undefined\<close>: no entry of the palette is returned.
\<close>

theorem routeColor_negative_undefined: "routeColor [45, 49] = None"
  by (simp add: routeColor_def parseInt10_def isStrWhiteSpace_def isDigit_def digitsValue_def
      js_rem_int_def colorAt_def COLORS_def)

section \<open>Properties of the frame handler\<close>

lemma updateVehicles_notifications:
  "notifications (updateVehicles vs st) = Suc (notifications st)"
  by (simp add: updateVehicles_def notify_def)

lemma updateVehicles_neq: "updateVehicles vs st \<noteq> st"
proof
  assume "updateVehicles vs st = st"
  then have "notifications (updateVehicles vs st) = notifications st" by simp
  then show False by (simp add: updateVehicles_notifications)
qed

lemma not_applied_same: "\<not> applied msg s s"
  using updateVehicles_neq [of "msg_vehicles msg" "store s"] by (auto simp: applied_def)

lemma isFreshSnapshot_timestampFresh:
  "parse [] = None \<Longrightarrow> isFreshSnapshot parse now (timestamp v) = timestampFresh parse now v"
  by (auto simp: isFreshSnapshot_def timestampFresh_def SNAPSHOT_MAX_AGE_MS_def split: option.splits)

lemma hasFresh_onFrame:
  "hasFreshVehicleUpdate (onFrame parse now msg s) = (hasFreshVehicleUpdate s \<or> msg_type msg = Update)"
  by (simp add: onFrame_def Let_def)

lemma hasFresh_onStatusChange:
  "hasFreshVehicleUpdate (onStatusChange c s) = (hasFreshVehicleUpdate s \<and> c)"
  by (simp add: onStatusChange_def Let_def)

lemma hasFresh_mainRun:
  "hasFreshVehicleUpdate (mainRun parse evs s) = updateSinceClose (hasFreshVehicleUpdate s) evs"
proof (induction evs arbitrary: s)
  case Nil
  then show ?case by (simp add: mainRun_def)
next
  case (Cons e evs)
  have "mainRun parse (e # evs) s = mainRun parse evs (mainStep parse s e)"
    by (simp add: mainRun_def)
  then show ?case
    by (cases e) (simp_all add: Cons.IH hasFresh_onFrame hasFresh_onStatusChange)
qed

lemma onFrame_cases:
  assumes "parse [] = None"
  shows "onFrame parse now msg s =
     (if msg_type msg = Update
      then s\<lparr> hasFreshVehicleUpdate := True, store := updateVehicles (msg_vehicles msg) (store s) \<rparr>
      else if hasFreshVehicleUpdate s
         \<or> (msg_vehicles msg \<noteq> [] \<and> (\<forall>v \<in> set (msg_vehicles msg). timestampFresh parse now v))
      then s\<lparr> store := updateVehicles (msg_vehicles msg) (store s) \<rparr>
      else s)"
  using assms
  by (simp add: onFrame_def Let_def list_all_iff isFreshSnapshot_timestampFresh)

text \<open>
  Claim C3, as the code has it. The handler applies a frame to the store exactly when it is
  an update frame, or an update frame has arrived since the connection was last reported
  closed, or the frame holds at least one vehicle and every vehicle's timestamp parses as a
  date at most 20000 ms older than the current time; a frame that is not applied leaves the
  state as it was. \<^verbatim>\<open>Date.parse\<close> maps the empty string to NaN.
\<close>

theorem snapshot_gate:
  assumes "parse [] = None"
  shows "let s = mainRun parse evs mainInit; s' = onFrame parse now msg s in
     (applied msg s s' \<longleftrightarrow>
        msg_type msg = Update \<or> updateSinceClose False evs
        \<or> (msg_vehicles msg \<noteq> [] \<and> (\<forall>v \<in> set (msg_vehicles msg). timestampFresh parse now v)))
     \<and> (applied msg s s' \<or> s' = s)"
proof -
  define s where "s = mainRun parse evs mainInit"
  define go where "go \<longleftrightarrow> msg_type msg = Update \<or> updateSinceClose False evs
        \<or> (msg_vehicles msg \<noteq> [] \<and> (\<forall>v \<in> set (msg_vehicles msg). timestampFresh parse now v))"
  have f: "hasFreshVehicleUpdate s = updateSinceClose False evs"
    by (simp add: s_def hasFresh_mainRun mainInit_def)
  have c: "onFrame parse now msg s =
     (if msg_type msg = Update
      then s\<lparr> hasFreshVehicleUpdate := True, store := updateVehicles (msg_vehicles msg) (store s) \<rparr>
      else if hasFreshVehicleUpdate s
         \<or> (msg_vehicles msg \<noteq> [] \<and> (\<forall>v \<in> set (msg_vehicles msg). timestampFresh parse now v))
      then s\<lparr> store := updateVehicles (msg_vehicles msg) (store s) \<rparr>
      else s)"
    using assms by (rule onFrame_cases)
  have "(applied msg s (onFrame parse now msg s) \<longleftrightarrow> go)
      \<and> (applied msg s (onFrame parse now msg s) \<or> onFrame parse now msg s = s)"
  proof (cases go)
    case True
    then have "applied msg s (onFrame parse now msg s)"
      unfolding c go_def f by (auto simp: applied_def)
    with True show ?thesis by simp
  next
    case False
    then have "onFrame parse now msg s = s"
      unfolding c go_def f by auto
    with False not_applied_same [of msg s] show ?thesis by simp
  qed
  then show ?thesis unfolding Let_def s_def go_def by blast
qed

text \<open>
  Claim C3 as stated ("after the first update frame, every frame is applied") fails on a
  frame history with an update frame in it, then a close and a reopening of the
  connection: the snapshot that follows, whose vehicle carries no timestamp, is withheld and
  the state is as before, although an update frame has been received earlier.
\<close>

theorem snapshot_after_reconnect_withheld:
  "isUpdateFrame (Frame 0 emptyUpdate)
   \<and> onFrame (\<lambda>s. None) 0 staleSnapshot
        (mainRun (\<lambda>s. None) [Frame 0 emptyUpdate, Status False, Status True] mainInit)
       = mainRun (\<lambda>s. None) [Frame 0 emptyUpdate, Status False, Status True] mainInit
   \<and> \<not> applied staleSnapshot
        (mainRun (\<lambda>s. None) [Frame 0 emptyUpdate, Status False, Status True] mainInit)
        (onFrame (\<lambda>s. None) 0 staleSnapshot
          (mainRun (\<lambda>s. None) [Frame 0 emptyUpdate, Status False, Status True] mainInit))"
proof -
  let ?parse = "\<lambda>s :: string. None :: real option"
  let ?evs = "[Frame 0 emptyUpdate, Status False, Status True]"
  let ?s = "mainRun ?parse ?evs mainInit"
  have u: "isUpdateFrame (Frame 0 emptyUpdate)"
    by (simp add: isUpdateFrame_def emptyUpdate_def)
  have f: "\<not> hasFreshVehicleUpdate ?s"
    by (simp add: hasFresh_mainRun mainInit_def)
  have t: "msg_type staleSnapshot \<noteq> Update" by (simp add: staleSnapshot_def)
  have n: "\<not> list_all (\<lambda>v. isFreshSnapshot ?parse 0 (timestamp v)) (msg_vehicles staleSnapshot)"
    by (simp add: staleSnapshot_def isFreshSnapshot_def sampleVehicle_def)
  from f t n have same: "onFrame ?parse 0 staleSnapshot ?s = ?s"
    by (simp add: onFrame_def Let_def)
  with u not_applied_same [of staleSnapshot ?s] show ?thesis by simp
qed

theorem snapshot_gate_witness:
  "(\<lambda>s. if s = ''t'' then Some 1000 else None) [] = (None :: real option)
   \<and> applied \<lparr> msg_type = Snapshot, msg_vehicles = [(sampleVehicle ''a'' ''1'')\<lparr> timestamp := Some ''t'' \<rparr>] \<rparr>
        (mainRun (\<lambda>s. if s = ''t'' then Some 1000 else None) [Status True] mainInit)
        (onFrame (\<lambda>s. if s = ''t'' then Some 1000 else None) 21000
           \<lparr> msg_type = Snapshot, msg_vehicles = [(sampleVehicle ''a'' ''1'')\<lparr> timestamp := Some ''t'' \<rparr>] \<rparr>
           (mainRun (\<lambda>s. if s = ''t'' then Some 1000 else None) [Status True] mainInit))
   \<and> \<not> applied \<lparr> msg_type = Snapshot, msg_vehicles = [(sampleVehicle ''a'' ''1'')\<lparr> timestamp := Some ''t'' \<rparr>] \<rparr>
        (mainRun (\<lambda>s. if s = ''t'' then Some 1000 else None) [Status True] mainInit)
        (onFrame (\<lambda>s. if s = ''t'' then Some 1000 else None) 21001
           \<lparr> msg_type = Snapshot, msg_vehicles = [(sampleVehicle ''a'' ''1'')\<lparr> timestamp := Some ''t'' \<rparr>] \<rparr>
           (mainRun (\<lambda>s. if s = ''t'' then Some 1000 else None) [Status True] mainInit))"
proof -
  let ?parse = "\<lambda>s. if s = ''t'' then Some (1000 :: real) else None"
  let ?msg = "\<lparr> msg_type = Snapshot, msg_vehicles = [(sampleVehicle ''a'' ''1'')\<lparr> timestamp := Some ''t'' \<rparr>] \<rparr>"
  have p: "?parse [] = None" by simp
  have f1: "\<forall>v \<in> set (msg_vehicles ?msg). timestampFresh ?parse 21000 v"
    by (simp add: timestampFresh_def)
  have f2: "\<not> (\<forall>v \<in> set (msg_vehicles ?msg). timestampFresh ?parse 21001 v)"
    by (simp add: timestampFresh_def)
  have n: "\<not> (msg_type ?msg = Update \<or> updateSinceClose False [Status True])" by simp
  from snapshot_gate [of ?parse "[Status True]" 21000 ?msg] p n f1
  have a: "applied ?msg (mainRun ?parse [Status True] mainInit)
      (onFrame ?parse 21000 ?msg (mainRun ?parse [Status True] mainInit))"
    by (simp add: Let_def)
  from snapshot_gate [of ?parse "[Status True]" 21001 ?msg] p n f2
  have b: "\<not> applied ?msg (mainRun ?parse [Status True] mainInit)
      (onFrame ?parse 21001 ?msg (mainRun ?parse [Status True] mainInit))"
    by (simp add: Let_def)
  from p a b show ?thesis by blast
qed

section \<open>Properties of the WebSocket client\<close>

lemma wsStep_no_send: "SocketSend sock payload \<notin> set (snd (wsStep c e))"
  by (cases e)
    (auto simp: connect_def subscribe_def unsubscribe_def disconnect_def onopen_def onmessage_def
      onclose_def onerror_def statusEffect_def split: option.splits)

lemma wsRun_no_send:
  "SocketSend sock payload \<notin> set effs \<Longrightarrow> SocketSend sock payload \<notin> set (snd (wsRun (c, effs) es))"
proof (induction es arbitrary: c effs)
  case Nil
  then show ?case by simp
next
  case (Cons e es)
  obtain c' new where s: "wsStep c e = (c', new)" by (cases "wsStep c e")
  with wsStep_no_send [of sock payload c e] have "SocketSend sock payload \<notin> set new" by simp
  with Cons.prems have "SocketSend sock payload \<notin> set (effs @ new)" by simp
  from Cons.IH [OF this] s show ?case by simp
qed

text \<open>
  Claim C7. Whatever the client is called with and whatever its sockets and its timer do, in
  any order and from any state of the client, no effect of the run is a \<^verbatim>\<open>send\<close> on a socket.
  A frame that parses is handed to every listener, in subscription order, and changes
  nothing in the client.
\<close>

theorem wsClient_never_sends:
  "SocketSend sock payload \<notin> set (snd (wsRun (c0, []) es))
   \<and> wsStep c (SocketMessage sock' (Some msg)) = (c, map (\<lambda>listener. Dispatch listener msg) (listeners c))"
  using wsRun_no_send [of sock payload "[]" c0 es]
  by (simp add: onmessage_def)

theorem wsClient_never_sends_witness:
  "snd (wsRun (newWsClient ''ws://h/ws/vehicles'', [])
     [CallSubscribe 0, SetStatusHandler True, CallConnect, SocketOpened 0,
      SocketMessage 0 (Some emptyUpdate), SocketErrored 0, SocketClosed 0, TimerFired 1])
   = [SocketNew 0 ''ws://h/ws/vehicles'', SocketBinaryType 0 ''arraybuffer'',
      ConsoleLog ''[WS] Connected'', StatusChanged True,
      Dispatch 0 emptyUpdate,
      ConsoleError ''[WS] Error:'', SocketClose 0,
      ConsoleLog ''[WS] Disconnected, reconnecting in 3s...'', StatusChanged False, SetTimeout 1 3000,
      SocketNew 1 ''ws://h/ws/vehicles'', SocketBinaryType 1 ''arraybuffer'']
   \<and> SocketSend 0 ''x'' \<notin> set (snd (wsRun (newWsClient ''ws://h/ws/vehicles'', [])
     [CallSubscribe 0, SetStatusHandler True, CallConnect, SocketOpened 0,
      SocketMessage 0 (Some emptyUpdate), SocketErrored 0, SocketClosed 0, TimerFired 1]))"
proof (rule conjI)
  show "snd (wsRun (newWsClient ''ws://h/ws/vehicles'', [])
     [CallSubscribe 0, SetStatusHandler True, CallConnect, SocketOpened 0,
      SocketMessage 0 (Some emptyUpdate), SocketErrored 0, SocketClosed 0, TimerFired 1])
   = [SocketNew 0 ''ws://h/ws/vehicles'', SocketBinaryType 0 ''arraybuffer'',
      ConsoleLog ''[WS] Connected'', StatusChanged True,
      Dispatch 0 emptyUpdate,
      ConsoleError ''[WS] Error:'', SocketClose 0,
      ConsoleLog ''[WS] Disconnected, reconnecting in 3s...'', StatusChanged False, SetTimeout 1 3000,
      SocketNew 1 ''ws://h/ws/vehicles'', SocketBinaryType 1 ''arraybuffer'']"
    by (simp add: newWsClient_def connect_def subscribe_def onopen_def onmessage_def
      onclose_def onerror_def statusEffect_def)
  from wsClient_never_sends [of 0 "''x''" "newWsClient ''ws://h/ws/vehicles''"
      "[CallSubscribe 0, SetStatusHandler True, CallConnect, SocketOpened 0,
      SocketMessage 0 (Some emptyUpdate), SocketErrored 0, SocketClosed 0, TimerFired 1]"]
  show "SocketSend 0 ''x'' \<notin> set (snd (wsRun (newWsClient ''ws://h/ws/vehicles'', [])
     [CallSubscribe 0, SetStatusHandler True, CallConnect, SocketOpened 0,
      SocketMessage 0 (Some emptyUpdate), SocketErrored 0, SocketClosed 0, TimerFired 1]))"
    by blast
qed

section \<open>Properties of the vehicle layer\<close>

lemma routedPose_ok:
  assumes "geomOK g"
  shows "\<exists>la lo c. routedPose g pr = Inr (la, lo, c)"
proof -
  from assms have a: "cumDist g \<noteq> []" "length (cumDist g) \<le> length (points g)"
    by (simp_all add: geomOK_def)
  from pointAtProgress_no_throw [OF a] obtain p where p: "pointAtProgress g pr = Inr p" by blast
  from bearingAtProgress_no_throw [OF a] obtain c where c: "bearingAtProgress g pr = Inr c" by blast
  from p c show ?thesis by (simp add: routedPose_def)
qed

lemma marker_teleport: "marker (teleport pr la lo co tv) = marker tv @ [SetLatLng (la, lo), UpdateHeading co]"
  by (simp add: teleport_def)

lemma onRouteChanged_ok:
  assumes "\<And>g. geom = Some g \<Longrightarrow> geomOK g"
  shows "\<exists>tv'. onRouteChanged rc geom v tv = Inr tv' \<and> prefix (marker tv) (marker tv')"
proof (cases "rc \<and> geom \<noteq> None \<and> progress v \<noteq> None")
  case True
  then obtain g pr where g: "geom = Some g" "progress v = Some pr" by auto
  from routedPose_ok [OF assms [OF g(1)], of pr] obtain la lo c where
    "routedPose g pr = Inr (la, lo, c)" by blast
  with True g show ?thesis by (simp add: onRouteChanged_def marker_teleport)
next
  case False
  then show ?thesis
    by (auto simp: onRouteChanged_def marker_teleport split: option.splits)
qed

lemma onProgressJump_ok:
  assumes "\<And>g. geom = Some g \<Longrightarrow> geomOK g"
  shows "\<exists>tv'. onProgressJump rc geom v tv = Inr tv' \<and> prefix (marker tv) (marker tv')"
proof (cases "\<exists>g pp pr. geom = Some g \<and> prevProgress tv = Some pp \<and> progress v = Some pr
    \<and> \<not> rc \<and> \<bar>pr - pp\<bar> > MAX_ANIM_PROGRESS_DELTA")
  case True
  then obtain g pp pr where g: "geom = Some g" "prevProgress tv = Some pp" "progress v = Some pr"
    "\<not> rc" "\<bar>pr - pp\<bar> > MAX_ANIM_PROGRESS_DELTA" by blast
  from routedPose_ok [OF assms [OF g(1)], of pr] obtain la lo c where
    "routedPose g pr = Inr (la, lo, c)" by blast
  with g show ?thesis by (simp add: onProgressJump_def marker_teleport)
next
  case False
  then show ?thesis
    by (auto simp: onProgressJump_def marker_teleport split: option.splits)
qed

lemma marker_setTarget: "marker (setTarget now geom v tv) = marker tv"
  by (simp add: setTarget_def Let_def)

lemma marker_refreshIcon: "prefix (marker tv) (marker (refreshIcon v tv))"
  by (simp add: refreshIcon_def Let_def)

lemma updateTracked_ok:
  assumes "\<And>g. geom = Some g \<Longrightarrow> geomOK g"
  shows "\<exists>tv'. updateTracked now geom v tv = Inr tv' \<and> prefix (marker tv) (marker tv')"
proof -
  define rc where "rc = (routeId tv \<noteq> route_id v)"
  define tv1 where "tv1 = tv\<lparr> prevLat := currentLat tv, prevLon := currentLon tv,
                     prevCourse := currentCourse tv, prevProgress := currentProgress tv \<rparr>"
  have m1: "marker tv1 = marker tv" by (simp add: tv1_def)
  from onRouteChanged_ok [where geom=geom and rc=rc and v=v and tv=tv1, OF assms] obtain tv2 where
    tv2: "onRouteChanged rc geom v tv1 = Inr tv2" "prefix (marker tv1) (marker tv2)" by blast
  from onProgressJump_ok [where geom=geom and rc=rc and v=v and tv=tv2, OF assms] obtain tv3 where
    tv3: "onProgressJump rc geom v tv2 = Inr tv3" "prefix (marker tv2) (marker tv3)" by blast
  have e: "updateTracked now geom v tv = Inr (refreshIcon v (setTarget now geom v tv3))"
    using tv2(1) tv3(1) by (simp add: updateTracked_def Let_def rc_def tv1_def)
  have "prefix (marker tv) (marker (refreshIcon v (setTarget now geom v tv3)))"
    using m1 tv2(2) tv3(2) marker_refreshIcon [of "setTarget now geom v tv3" v]
    by (metis marker_setTarget prefix_order.order_trans)
  with e show ?thesis by blast
qed

lemma createTracked_ok:
  assumes "\<And>g. geom = Some g \<Longrightarrow> geomOK g"
  shows "\<exists>tv' p c. createTracked now geom v = Inr tv'
     \<and> marker tv' = [NewMarker p (route v) (signal_lost v), BindPopup v, AddTo, UpdateHeading c]"
proof (cases "geom \<noteq> None \<and> progress v \<noteq> None")
  case True
  then obtain g pr where g: "geom = Some g" "progress v = Some pr" by auto
  from routedPose_ok [OF assms [OF g(1)], of pr] obtain la lo c where
    "routedPose g pr = Inr (la, lo, c)" by blast
  with g show ?thesis by (simp add: createTracked_def)
next
  case False
  then show ?thesis
    by (auto simp: createTracked_def split: option.splits)
qed


lemma geomFor_ok: "geomsOK layer \<Longrightarrow> geomFor layer v = Some g \<Longrightarrow> geomOK g"
  by (auto simp: geomsOK_def geomFor_def ran_def split: option.splits)

lemma trackedIds_dom: "trackedIds layer = dom (map_of (tracked layer))"
  by (simp add: trackedIds_def dom_map_of_conv_image_fst)

lemma updateVehicle_ok:
  assumes "geomsOK layer"
  shows "\<exists>layer' tv'. updateVehicle now v layer = Inr layer'
     \<and> map_of (tracked layer') = (map_of (tracked layer))(id_v v \<mapsto> tv')
     \<and> (case map_of (tracked layer) (id_v v) of
           Some tv \<Rightarrow> prefix (marker tv) (marker tv') \<and> layerGroup layer' = layerGroup layer
         | None \<Rightarrow> (\<exists>p c. marker tv' = [NewMarker p (route v) (signal_lost v), BindPopup v, AddTo, UpdateHeading c])
                   \<and> layerGroup layer' = layerGroup layer @ [id_v v])
     \<and> routeGeometries layer' = routeGeometries layer"
proof (cases "map_of (tracked layer) (id_v v)")
  case None
  from createTracked_ok [where geom="geomFor layer v" and now=now and v=v] geomFor_ok [OF assms]
  obtain tv' p c where
    ct: "createTracked now (geomFor layer v) v = Inr tv'"
    and mk: "marker tv' = [NewMarker p (route v) (signal_lost v), BindPopup v, AddTo, UpdateHeading c]"
    by blast
  let ?l = "layer\<lparr> tracked := AList.update (id_v v) tv' (tracked layer),
                     layerGroup := layerGroup layer @ [id_v v] \<rparr>"
  have 1: "updateVehicle now v layer = Inr ?l"
    using None ct by (simp add: updateVehicle_def)
  have 2: "map_of (tracked ?l) = (map_of (tracked layer))(id_v v \<mapsto> tv')"
    by (simp add: update_conv')
  have 3: "case map_of (tracked layer) (id_v v) of
           Some tv \<Rightarrow> prefix (marker tv) (marker tv') \<and> layerGroup ?l = layerGroup layer
         | None \<Rightarrow> (\<exists>p c. marker tv' = [NewMarker p (route v) (signal_lost v), BindPopup v, AddTo, UpdateHeading c])
                   \<and> layerGroup ?l = layerGroup layer @ [id_v v]"
    using None mk by simp
  have 4: "routeGeometries ?l = routeGeometries layer" by simp
  from 1 2 3 4 show ?thesis by blast
next
  case (Some tv)
  from updateTracked_ok [where geom="geomFor layer v" and now=now and v=v and tv=tv] geomFor_ok [OF assms]
  obtain tv' where
    ut: "updateTracked now (geomFor layer v) v tv = Inr tv'" and pf: "prefix (marker tv) (marker tv')"
    by blast
  let ?l = "layer\<lparr> tracked := AList.update (id_v v) tv' (tracked layer) \<rparr>"
  have 1: "updateVehicle now v layer = Inr ?l"
    using Some ut by (simp add: updateVehicle_def)
  have 2: "map_of (tracked ?l) = (map_of (tracked layer))(id_v v \<mapsto> tv')"
    by (simp add: update_conv')
  have 3: "case map_of (tracked layer) (id_v v) of
           Some tv \<Rightarrow> prefix (marker tv) (marker tv') \<and> layerGroup ?l = layerGroup layer
         | None \<Rightarrow> (\<exists>p c. marker tv' = [NewMarker p (route v) (signal_lost v), BindPopup v, AddTo, UpdateHeading c])
                   \<and> layerGroup ?l = layerGroup layer @ [id_v v]"
    using Some pf by simp
  have 4: "routeGeometries ?l = routeGeometries layer" by simp
  from 1 2 3 4 show ?thesis by blast
qed

lemma updateVehicle_geomsOK:
  "geomsOK layer \<Longrightarrow> updateVehicle now v layer = Inr layer' \<Longrightarrow> geomsOK layer'"
  using updateVehicle_ok [of layer now v] by (auto simp: geomsOK_def)

lemma updateLoop_ok:
  assumes "geomsOK layer"
  shows "\<exists>layer'. updateLoop now vs (seen, layer) = Inr (seen \<union> id_v ` set vs, layer')
     \<and> trackedIds layer' = trackedIds layer \<union> id_v ` set vs
     \<and> routeGeometries layer' = routeGeometries layer
     \<and> (set (layerGroup layer) = trackedIds layer \<longrightarrow> set (layerGroup layer') = trackedIds layer')
     \<and> (\<forall>k tv. map_of (tracked layer) k = Some tv \<longrightarrow>
          (\<exists>tv'. map_of (tracked layer') k = Some tv' \<and> prefix (marker tv) (marker tv')))
     \<and> (\<forall>k. k \<in> id_v ` set vs \<longrightarrow> map_of (tracked layer) k = None \<longrightarrow>
          (\<exists>tv' p r s rest. map_of (tracked layer') k = Some tv' \<and> marker tv' = NewMarker p r s # rest))"
  using assms
proof (induction vs arbitrary: seen layer)
  case Nil
  then show ?case by simp
next
  case (Cons v vs)
  from updateVehicle_ok [OF Cons.prems, of now v] obtain l1 tv1 where
    uv: "updateVehicle now v layer = Inr l1
     \<and> map_of (tracked l1) = (map_of (tracked layer))(id_v v \<mapsto> tv1)
     \<and> (case map_of (tracked layer) (id_v v) of
           Some tv \<Rightarrow> prefix (marker tv) (marker tv1) \<and> layerGroup l1 = layerGroup layer
         | None \<Rightarrow> (\<exists>p c. marker tv1 = [NewMarker p (route v) (signal_lost v), BindPopup v, AddTo, UpdateHeading c])
                   \<and> layerGroup l1 = layerGroup layer @ [id_v v])
     \<and> routeGeometries l1 = routeGeometries layer"
    by (elim exE)
  note s = uv [THEN conjunct1]
  note m1 = uv [THEN conjunct2, THEN conjunct1]
  note c1 = uv [THEN conjunct2, THEN conjunct2, THEN conjunct1]
  note g1 = uv [THEN conjunct2, THEN conjunct2, THEN conjunct2]
  have ok1: "geomsOK l1" using Cons.prems s by (rule updateVehicle_geomsOK)
  from Cons.IH [OF ok1, of "insert (id_v v) seen"] obtain l2 where
    ih: "updateLoop now vs (insert (id_v v) seen, l1) = Inr (insert (id_v v) seen \<union> id_v ` set vs, l2)
     \<and> trackedIds l2 = trackedIds l1 \<union> id_v ` set vs
     \<and> routeGeometries l2 = routeGeometries l1
     \<and> (set (layerGroup l1) = trackedIds l1 \<longrightarrow> set (layerGroup l2) = trackedIds l2)
     \<and> (\<forall>k tv. map_of (tracked l1) k = Some tv \<longrightarrow>
          (\<exists>tv'. map_of (tracked l2) k = Some tv' \<and> prefix (marker tv) (marker tv')))
     \<and> (\<forall>k. k \<in> id_v ` set vs \<longrightarrow> map_of (tracked l1) k = None \<longrightarrow>
          (\<exists>tv' p r s rest. map_of (tracked l2) k = Some tv' \<and> marker tv' = NewMarker p r s # rest))"
    by (elim exE)
  note loop = ih [THEN conjunct1]
  note ids2 = ih [THEN conjunct2, THEN conjunct1]
  note g2 = ih [THEN conjunct2, THEN conjunct2, THEN conjunct1]
  note lg2 = ih [THEN conjunct2, THEN conjunct2, THEN conjunct2, THEN conjunct1]
  note keep2 = ih [THEN conjunct2, THEN conjunct2, THEN conjunct2, THEN conjunct2, THEN conjunct1]
  note new2 = ih [THEN conjunct2, THEN conjunct2, THEN conjunct2, THEN conjunct2, THEN conjunct2]
  have ids1: "trackedIds l1 = insert (id_v v) (trackedIds layer)"
    by (simp add: trackedIds_dom m1)
  have a: "updateLoop now (v # vs) (seen, layer) = Inr (seen \<union> id_v ` set (v # vs), l2)"
    using s loop by simp
  have b: "trackedIds l2 = trackedIds layer \<union> id_v ` set (v # vs)"
    using ids1 ids2 by auto
  have c: "routeGeometries l2 = routeGeometries layer"
    using g1 g2 by simp
  have d: "set (layerGroup layer) = trackedIds layer \<longrightarrow> set (layerGroup l2) = trackedIds l2"
  proof
    assume inv: "set (layerGroup layer) = trackedIds layer"
    have "set (layerGroup l1) = trackedIds l1"
    proof (cases "map_of (tracked layer) (id_v v)")
      case None
      with c1 inv ids1 show ?thesis by auto
    next
      case (Some tv)
      then have "id_v v \<in> trackedIds layer" by (auto simp: trackedIds_dom)
      with Some c1 inv ids1 show ?thesis by auto
    qed
    with lg2 show "set (layerGroup l2) = trackedIds l2" by simp
  qed
  have e: "\<exists>tv'. map_of (tracked l2) k = Some tv' \<and> prefix (marker tv) (marker tv')"
    if k: "map_of (tracked layer) k = Some tv" for k tv
  proof (cases "k = id_v v")
    case True
    with k c1 have p1: "prefix (marker tv) (marker tv1)" by simp
    from True m1 have "map_of (tracked l1) k = Some tv1" by simp
    with keep2 obtain tv' where "map_of (tracked l2) k = Some tv'" "prefix (marker tv1) (marker tv')"
      by blast
    with p1 show ?thesis by (meson prefix_order.order_trans)
  next
    case False
    with k m1 have "map_of (tracked l1) k = Some tv" by simp
    with keep2 show ?thesis by blast
  qed
  have f: "\<exists>tv' p r s rest. map_of (tracked l2) k = Some tv' \<and> marker tv' = NewMarker p r s # rest"
    if k: "k \<in> id_v ` set (v # vs)" "map_of (tracked layer) k = None" for k
  proof (cases "k = id_v v")
    case True
    with k c1 obtain p c where mk: "marker tv1 = [NewMarker p (route v) (signal_lost v), BindPopup v, AddTo, UpdateHeading c]"
      by auto
    from True m1 have "map_of (tracked l1) k = Some tv1" by simp
    with keep2 obtain tv' where t: "map_of (tracked l2) k = Some tv'" "prefix (marker tv1) (marker tv')"
      by blast
    from t(2) mk obtain rest where "marker tv' = NewMarker p (route v) (signal_lost v) # rest"
      by (auto simp: prefix_def)
    with t(1) show ?thesis by blast
  next
    case False
    with k m1 have "k \<in> id_v ` set vs" "map_of (tracked l1) k = None" by auto
    with new2 show ?thesis by blast
  qed
  show ?case
  proof (intro exI [of _ l2] conjI allI impI)
    show "updateLoop now (v # vs) (seen, layer) = Inr (seen \<union> id_v ` set (v # vs), l2)" by (rule a)
    show "trackedIds l2 = trackedIds layer \<union> id_v ` set (v # vs)" by (rule b)
    show "routeGeometries l2 = routeGeometries layer" by (rule c)
    show "set (layerGroup l2) = trackedIds l2" if "set (layerGroup layer) = trackedIds layer"
      using d that by simp
    show "\<exists>tv'. map_of (tracked l2) k = Some tv' \<and> prefix (marker tv) (marker tv')"
      if "map_of (tracked layer) k = Some tv" for k tv using that by (rule e)
    show "\<exists>tv' p r s rest. map_of (tracked l2) k = Some tv' \<and> marker tv' = NewMarker p r s # rest"
      if "k \<in> id_v ` set (v # vs)" "map_of (tracked layer) k = None" for k using that by (rule f)
  qed
qed

lemma map_of_filter_key:
  "map_of (filter (\<lambda>(k, x). k \<in> S) al) k = (if k \<in> S then map_of al k else None)"
  by (induction al) auto

lemma removeStale_props:
  "map_of (tracked (removeStale seen layer)) k = (if k \<in> seen then map_of (tracked layer) k else None)"
  "trackedIds (removeStale seen layer) = trackedIds layer \<inter> seen"
  "set (layerGroup (removeStale seen layer)) = set (layerGroup layer) - (trackedIds layer - seen)"
  "routeGeometries (removeStale seen layer) = routeGeometries layer"
  by (auto simp: removeStale_def Let_def map_of_filter_key trackedIds_def)

text \<open>
  The hypothesis on the geometries holds of a new layer and after every \<^verbatim>\<open>loadRoutes\<close>, and
  \<^verbatim>\<open>update\<close> keeps it.
\<close>

lemma geomsOK_new: "geomsOK newVehicleLayer"
  by (simp add: geomsOK_def newVehicleLayer_def)

lemma buildRouteGeometry_geomOK:
  assumes "2 \<le> length coords"
  shows "\<exists>g. buildRouteGeometry coords = Inr g \<and> geomOK g"
proof -
  from assms obtain p0 rest where c: "coords = p0 # rest" by (cases coords) auto
  show ?thesis
    unfolding c buildRouteGeometry_Cons by (simp add: geomOK_def runningDist_length)
qed

lemma loadRoutesLoop_ok:
  "\<forall>g \<in> ran m. geomOK g \<Longrightarrow> \<exists>m'. loadRoutesLoop rs m = Inr m' \<and> (\<forall>g \<in> ran m'. geomOK g)"
proof (induction rs arbitrary: m)
  case Nil
  then show ?case by simp
next
  case (Cons r rs)
  show ?case
  proof (cases "geometry r")
    case None
    with Cons show ?thesis by simp
  next
    case (Some coords)
    show ?thesis
    proof (cases "2 \<le> length coords")
      case False
      with Some Cons show ?thesis by simp
    next
      case True
      from buildRouteGeometry_geomOK [OF True] obtain g where
        g: "buildRouteGeometry coords = Inr g" "geomOK g" by blast
      have "\<forall>g' \<in> ran (m(route_key r \<mapsto> g)). geomOK g'"
        using Cons.prems g(2) by (auto simp: ran_def split: if_splits)
      from Cons.IH [OF this] obtain m' where
        "loadRoutesLoop rs (m(route_key r \<mapsto> g)) = Inr m'" "\<forall>g \<in> ran m'. geomOK g" by blast
      moreover have "loadRoutesLoop (r # rs) m = loadRoutesLoop rs (m(route_key r \<mapsto> g))"
        using Some True g(1) by (simp del: fun_upd_apply)
      ultimately show ?thesis by simp
    qed
  qed
qed

lemma loadRoutes_ok:
  "\<exists>layer'. loadRoutes rs layer = Inr layer' \<and> geomsOK layer'
     \<and> tracked layer' = tracked layer \<and> layerGroup layer' = layerGroup layer"
proof -
  from loadRoutesLoop_ok [of Map.empty rs] obtain m where
    "loadRoutesLoop rs Map.empty = Inr m" "\<forall>g \<in> ran m. geomOK g" by auto
  then show ?thesis by (simp add: loadRoutes_def geomsOK_def)
qed

text \<open>
  Claim C6. On a layer whose route geometries are those \<^verbatim>\<open>loadRoutes\<close> stores,
  \<^verbatim>\<open>update(vehicles)\<close> returns, and afterwards the ids with an entry in \<^verbatim>\<open>tracked\<close> are exactly
  the ids in the frame: an id of the frame that was tracked keeps its marker (the calls made
  on it before, then this update's), an id of the frame that was not tracked has a marker
  constructed in this update, and an id outside the frame has no entry. When the layer group
  held the tracked markers before, it holds exactly the frame's afterwards.
\<close>

theorem update_tracks_frame:
  assumes "geomsOK layer"
  shows "\<exists>layer'. update now vs layer = Inr layer'
     \<and> trackedIds layer' = id_v ` set vs
     \<and> (\<forall>k tv. k \<in> id_v ` set vs \<longrightarrow> map_of (tracked layer) k = Some tv \<longrightarrow>
          (\<exists>tv'. map_of (tracked layer') k = Some tv' \<and> prefix (marker tv) (marker tv')))
     \<and> (\<forall>k. k \<in> id_v ` set vs \<longrightarrow> map_of (tracked layer) k = None \<longrightarrow>
          (\<exists>tv' p r s rest. map_of (tracked layer') k = Some tv' \<and> marker tv' = NewMarker p r s # rest))
     \<and> (\<forall>k. k \<notin> id_v ` set vs \<longrightarrow> map_of (tracked layer') k = None)
     \<and> (set (layerGroup layer) = trackedIds layer \<longrightarrow> set (layerGroup layer') = id_v ` set vs)
     \<and> geomsOK layer'"
proof -
  from updateLoop_ok [OF assms, of now vs "{}"] obtain l1 where
    ih: "updateLoop now vs ({}, layer) = Inr ({} \<union> id_v ` set vs, l1)
     \<and> trackedIds l1 = trackedIds layer \<union> id_v ` set vs
     \<and> routeGeometries l1 = routeGeometries layer
     \<and> (set (layerGroup layer) = trackedIds layer \<longrightarrow> set (layerGroup l1) = trackedIds l1)
     \<and> (\<forall>k tv. map_of (tracked layer) k = Some tv \<longrightarrow>
          (\<exists>tv'. map_of (tracked l1) k = Some tv' \<and> prefix (marker tv) (marker tv')))
     \<and> (\<forall>k. k \<in> id_v ` set vs \<longrightarrow> map_of (tracked layer) k = None \<longrightarrow>
          (\<exists>tv' p r s rest. map_of (tracked l1) k = Some tv' \<and> marker tv' = NewMarker p r s # rest))"
    by (elim exE)
  note loop = ih [THEN conjunct1]
  note ids1 = ih [THEN conjunct2, THEN conjunct1]
  note g1 = ih [THEN conjunct2, THEN conjunct2, THEN conjunct1]
  note lg1 = ih [THEN conjunct2, THEN conjunct2, THEN conjunct2, THEN conjunct1]
  note keep1 = ih [THEN conjunct2, THEN conjunct2, THEN conjunct2, THEN conjunct2, THEN conjunct1]
  note new1 = ih [THEN conjunct2, THEN conjunct2, THEN conjunct2, THEN conjunct2, THEN conjunct2]
  let ?seen = "id_v ` set vs"
  let ?l2 = "removeStale ?seen l1"
  have u: "update now vs layer = Inr ?l2"
    using loop by (simp add: update_def)
  show ?thesis
  proof (intro exI [of _ ?l2] conjI allI impI)
    show "update now vs layer = Inr ?l2" by (rule u)
    show "trackedIds ?l2 = ?seen"
      using ids1 by (auto simp: removeStale_props(2))
    show "\<exists>tv'. map_of (tracked ?l2) k = Some tv' \<and> prefix (marker tv) (marker tv')"
      if "k \<in> ?seen" "map_of (tracked layer) k = Some tv" for k tv
      using keep1 that by (simp add: removeStale_props(1))
    show "\<exists>tv' p r s rest. map_of (tracked ?l2) k = Some tv' \<and> marker tv' = NewMarker p r s # rest"
      if "k \<in> ?seen" "map_of (tracked layer) k = None" for k
      using new1 that by (simp add: removeStale_props(1))
    show "map_of (tracked ?l2) k = None" if "k \<notin> ?seen" for k
      using that by (simp add: removeStale_props(1))
    show "set (layerGroup ?l2) = ?seen" if "set (layerGroup layer) = trackedIds layer"
      using lg1 that ids1 by (auto simp: removeStale_props(3))
    show "geomsOK ?l2"
      using assms g1 by (simp add: geomsOK_def removeStale_props(4))
  qed
qed

theorem update_tracks_frame_witness:
  "geomsOK newVehicleLayer
   \<and> (\<exists>l1 l2. update 0 [sampleVehicle ''b'' ''2''] newVehicleLayer = Inr l1
         \<and> trackedIds l1 = {''b''}
         \<and> update 1 [sampleVehicle ''a'' ''1'', sampleVehicle ''c'' ''3''] l1 = Inr l2
         \<and> trackedIds l2 = {''a'', ''c''})"
proof -
  from update_tracks_frame [OF geomsOK_new, of 0 "[sampleVehicle ''b'' ''2'']"] obtain l1 where
    u1: "update 0 [sampleVehicle ''b'' ''2''] newVehicleLayer = Inr l1"
    and i1: "trackedIds l1 = id_v ` set [sampleVehicle ''b'' ''2'']"
    and g1: "geomsOK l1"
    by (elim exE conjE)
  from update_tracks_frame [OF g1, of 1 "[sampleVehicle ''a'' ''1'', sampleVehicle ''c'' ''3'']"] obtain l2 where
    u2: "update 1 [sampleVehicle ''a'' ''1'', sampleVehicle ''c'' ''3''] l1 = Inr l2"
    and i2: "trackedIds l2 = id_v ` set [sampleVehicle ''a'' ''1'', sampleVehicle ''c'' ''3'']"
    by (elim exE conjE)
  from i1 have j1: "trackedIds l1 = {''b''}" by (simp add: sampleVehicle_def)
  from i2 have j2: "trackedIds l2 = {''a'', ''c''}" by (simp add: sampleVehicle_def)
  from u1 j1 u2 j2 have "\<exists>l1 l2. update 0 [sampleVehicle ''b'' ''2''] newVehicleLayer = Inr l1
         \<and> trackedIds l1 = {''b''}
         \<and> update 1 [sampleVehicle ''a'' ''1'', sampleVehicle ''c'' ''3''] l1 = Inr l2
         \<and> trackedIds l2 = {''a'', ''c''}"
    by (intro exI conjI)
  with geomsOK_new show ?thesis by (rule conjI)
qed

end
